theory Spec2Isabelle
  imports Complex_Main "HOL-Library.Log_Nat"
begin

section \<open>JavaScript numbers\<close>

text \<open>
  A JavaScript number is an IEEE-754 binary64 value: \<open>NaN\<close>, an infinity, or a finite
  number \<open>Fin a\<close>. Every arithmetic operation computes the exact result and rounds it to
  the nearest binary64 value, ties to even, with overflow to an infinity (\<open>fl\<close> below).
  The one simplification is that \<open>-0\<close> is identified with \<open>0\<close>: \<open>-0 === 0\<close> holds in
  JavaScript, and the code never uses a quotient by a zero that could be negative.
\<close>

datatype jsnum = NaN | Fin rat | PInf | NInf

text \<open>The binary exponent of a nonzero number: the \<open>e\<close> with \<open>2^e \<le> |x| < 2^(e+1)\<close>.\<close>

definition expOf :: "rat \<Rightarrow> int" where
  "expOf x =
     (let (p, q) = quotient_of \<bar>x\<bar>; d = bitlen p - bitlen q
      in if 2 powi d \<le> \<bar>x\<bar> then d else d - 1)"

text \<open>The nearest integer, a tie going to the even one.\<close>

definition roundEven :: "rat \<Rightarrow> int" where
  "roundEven q =
     (let f = \<lfloor>q\<rfloor>; d = q - of_int f
      in if d < 1 / 2 then f else if 1 / 2 < d then f + 1 else if even f then f else f + 1)"

text \<open>
  Rounding to binary64: 53 significant bits, the exponent of the last place at least
  \<open>-1074\<close> (gradual underflow), and an infinity once the rounded magnitude reaches
  \<open>2^1024\<close>.
\<close>

definition fl :: "rat \<Rightarrow> jsnum" where
  "fl x =
     (if x = 0 then Fin 0
      else
        (let e = max (expOf x) (- 1022);
             ulp = 2 powi (e - 52);
             y = of_int (roundEven (\<bar>x\<bar> / ulp)) * ulp
         in if 2 ^ 1024 \<le> y then (if 0 < x then PInf else NInf)
            else Fin (if 0 < x then y else - y)))"

text \<open>The unit roundoff \<open>2^-53\<close> and half the smallest positive number, \<open>2^-1075\<close>.\<close>

definition eps64 :: rat where
  "eps64 = 1 / 2 ^ 53"

definition tiny64 :: rat where
  "tiny64 = 1 / 2 ^ 1075"

fun js_neg :: "jsnum \<Rightarrow> jsnum" where
  "js_neg NaN = NaN"
| "js_neg (Fin a) = Fin (- a)"
| "js_neg PInf = NInf"
| "js_neg NInf = PInf"

text \<open>The operator \<open>a + b\<close> on numbers.\<close>

fun js_add :: "jsnum \<Rightarrow> jsnum \<Rightarrow> jsnum" where
  "js_add (Fin a) (Fin b) = fl (a + b)"
| "js_add (Fin a) PInf = PInf"
| "js_add (Fin a) NInf = NInf"
| "js_add PInf (Fin b) = PInf"
| "js_add NInf (Fin b) = NInf"
| "js_add PInf PInf = PInf"
| "js_add NInf NInf = NInf"
| "js_add PInf NInf = NaN"
| "js_add NInf PInf = NaN"
| "js_add NaN b = NaN"
| "js_add a NaN = NaN"

text \<open>The operator \<open>a - b\<close> on numbers.\<close>

definition js_sub :: "jsnum \<Rightarrow> jsnum \<Rightarrow> jsnum" where
  "js_sub a b = js_add a (js_neg b)"

text \<open>The infinity of the sign of \<open>s\<close>; \<open>NaN\<close> when \<open>s\<close> is zero.\<close>

definition signed_inf :: "rat \<Rightarrow> jsnum" where
  "signed_inf s = (if s = 0 then NaN else if 0 < s then PInf else NInf)"

text \<open>The operator \<open>a * b\<close> on numbers: infinity times zero is \<open>NaN\<close>.\<close>

fun js_mul :: "jsnum \<Rightarrow> jsnum \<Rightarrow> jsnum" where
  "js_mul (Fin a) (Fin b) = fl (a * b)"
| "js_mul (Fin a) PInf = signed_inf a"
| "js_mul (Fin a) NInf = signed_inf (- a)"
| "js_mul PInf (Fin b) = signed_inf b"
| "js_mul NInf (Fin b) = signed_inf (- b)"
| "js_mul PInf PInf = PInf"
| "js_mul NInf NInf = PInf"
| "js_mul PInf NInf = NInf"
| "js_mul NInf PInf = NInf"
| "js_mul NaN b = NaN"
| "js_mul a NaN = NaN"

text \<open>
  The operator \<open>a / b\<close> on numbers: a finite number over an infinity is zero, a
  nonzero number over zero is an infinity, zero over zero and infinity over infinity
  are \<open>NaN\<close>. The zero divisor is taken as \<open>+0\<close>.
\<close>

fun js_div :: "jsnum \<Rightarrow> jsnum \<Rightarrow> jsnum" where
  "js_div (Fin a) (Fin b) = (if b = 0 then signed_inf a else fl (a / b))"
| "js_div (Fin a) PInf = Fin 0"
| "js_div (Fin a) NInf = Fin 0"
| "js_div PInf (Fin b) = (if 0 \<le> b then PInf else NInf)"
| "js_div NInf (Fin b) = (if 0 \<le> b then NInf else PInf)"
| "js_div PInf PInf = NaN"
| "js_div NInf NInf = NaN"
| "js_div PInf NInf = NaN"
| "js_div NInf PInf = NaN"
| "js_div NaN b = NaN"
| "js_div a NaN = NaN"

text \<open>The comparisons \<open>a >= b\<close> and \<open>a > b\<close>: false as soon as one side is \<open>NaN\<close>.\<close>

fun js_ge :: "jsnum \<Rightarrow> jsnum \<Rightarrow> bool" where
  "js_ge (Fin a) (Fin b) = (b \<le> a)"
| "js_ge PInf (Fin b) = True"
| "js_ge PInf PInf = True"
| "js_ge PInf NInf = True"
| "js_ge (Fin a) NInf = True"
| "js_ge NInf NInf = True"
| "js_ge (Fin a) PInf = False"
| "js_ge NInf (Fin b) = False"
| "js_ge NInf PInf = False"
| "js_ge NaN b = False"
| "js_ge a NaN = False"

definition js_gt :: "jsnum \<Rightarrow> jsnum \<Rightarrow> bool" where
  "js_gt a b = (js_ge a b \<and> a \<noteq> b)"

definition isNaN :: "jsnum \<Rightarrow> bool" where
  "isNaN n = (n = NaN)"

section \<open>JavaScript values and the conversions to a number\<close>

text \<open>
  The values a field of a stored bill can hold at run time: nothing (the field is
  missing), \<open>null\<close>, a boolean, a number, text (the bytes of its UTF-8 encoding), or a
  plain object or function, such as the members every object inherits from
  \<open>Object.prototype\<close>. Arrays, whose conversion to text goes through their elements, are
  not covered. A stored number \<open>JNumber (Fin a)\<close> is the number written \<open>a\<close>: like a
  numeric literal it denotes the binary64 value nearest to \<open>a\<close>.
\<close>

datatype jsval = JUndefined | JNull | JBool bool | JNumber jsnum | JString string | JObject

fun asDouble :: "jsnum \<Rightarrow> jsnum" where
  "asDouble (Fin a) = fl a"
| "asDouble n = n"

text \<open>A number that is a binary64 value: rounding leaves it as it is.\<close>

definition representable :: "jsnum \<Rightarrow> bool" where
  "representable n = (asDouble n = n)"

subsection \<open>White space and numeric literals\<close>

text \<open>
  The length in bytes of the white space or line terminator character at the head of
  the given bytes, 0 when there is none: tab, line feed, vertical tab, form feed,
  carriage return, space, U+00A0, U+1680, U+2000 to U+200A, U+2028, U+2029, U+202F,
  U+205F, U+3000 and U+FEFF.
\<close>

definition wsBytes :: "nat list \<Rightarrow> nat" where
  "wsBytes bs =
     (case bs of
        [] \<Rightarrow> 0
      | a # r \<Rightarrow>
          if a \<in> set [9, 10, 11, 12, 13, 32] then 1
          else (case r of
                  [] \<Rightarrow> 0
                | b # r2 \<Rightarrow>
                    if a = 194 \<and> b = 160 then 2
                    else (case r2 of
                            [] \<Rightarrow> 0
                          | c # _ \<Rightarrow>
                              if a = 225 \<and> b = 154 \<and> c = 128 then 3
                              else if a = 226 \<and> b = 128
                                      \<and> (128 \<le> c \<and> c \<le> 138 \<or> c \<in> set [168, 169, 175]) then 3
                              else if a = 226 \<and> b = 129 \<and> c = 159 then 3
                              else if a = 227 \<and> b = 128 \<and> c = 128 then 3
                              else if a = 239 \<and> b = 187 \<and> c = 191 then 3
                              else 0)))"

text \<open>
  Dropping the leading white space. The first argument counts the bytes still to drop
  of a white space character whose first byte has been dropped already.
\<close>

fun skipWhiteSpace :: "nat \<Rightarrow> string \<Rightarrow> string" where
  "skipWhiteSpace k [] = []"
| "skipWhiteSpace (Suc k) (c # cs) = skipWhiteSpace k cs"
| "skipWhiteSpace 0 (c # cs) =
     (case wsBytes (map of_char (take 3 (c # cs))) of
        0 \<Rightarrow> c # cs
      | Suc k \<Rightarrow> skipWhiteSpace k cs)"

definition isDigit :: "char \<Rightarrow> bool" where
  "isDigit c = (48 \<le> (of_char c :: nat) \<and> (of_char c :: nat) \<le> 57)"

text \<open>The value of a run of digits in the given base, most significant first.\<close>

definition digitValue :: "char \<Rightarrow> nat" where
  "digitValue c =
     (let n = (of_char c :: nat)
      in if 48 \<le> n \<and> n \<le> 57 then n - 48
         else if 97 \<le> n \<and> n \<le> 102 then n - 87
         else if 65 \<le> n \<and> n \<le> 70 then n - 55
         else 16)"

definition digitsValue :: "nat \<Rightarrow> string \<Rightarrow> nat" where
  "digitsValue base ds = foldl (\<lambda>acc c. base * acc + digitValue c) 0 ds"

text \<open>Splits an optional leading sign off: the flag says whether it was a minus.\<close>

fun takeSign :: "string \<Rightarrow> bool \<times> string" where
  "takeSign [] = (False, [])"
| "takeSign (c # cs) =
     (if c = CHR ''-'' then (True, cs)
      else if c = CHR ''+'' then (False, cs)
      else (False, c # cs))"

text \<open>
  The exponent part \<open>e\<close>, optional sign, digits, with the text after it: read only when
  at least one digit follows, and otherwise left in the remaining text.
\<close>

fun exponentPart :: "string \<Rightarrow> int \<times> string" where
  "exponentPart [] = (0, [])"
| "exponentPart (c # cs) =
     (if c = CHR ''e'' \<or> c = CHR ''E'' then
        (let (neg, r) = takeSign cs; ds = takeWhile isDigit r
         in if ds = [] then (0, c # cs)
            else (if neg then - int (digitsValue 10 ds) else int (digitsValue 10 ds),
                  dropWhile isDigit r))
      else (0, c # cs))"

text \<open>
  The longest prefix that is an unsigned decimal literal (digits, an optional fraction,
  an optional exponent): its exact value and the text after it, or nothing when there
  is no such prefix.
\<close>

definition scanDecimal :: "string \<Rightarrow> (rat \<times> string) option" where
  "scanDecimal s =
     (let ip = takeWhile isDigit s;
          r1 = dropWhile isDigit s;
          fp = (case r1 of [] \<Rightarrow> []
                | c # r \<Rightarrow> if c = CHR ''.'' then takeWhile isDigit r else []);
          r2 = (case r1 of [] \<Rightarrow> []
                | c # r \<Rightarrow> if c = CHR ''.'' then dropWhile isDigit r else r1)
      in if ip = [] \<and> fp = [] then None
         else
           (let mant = (of_nat (digitsValue 10 ip) :: rat)
                         + of_nat (digitsValue 10 fp) / 10 ^ length fp;
                (ex, rest) = exponentPart r2
            in Some (if 0 \<le> ex then mant * 10 ^ nat ex else mant / 10 ^ nat (- ex), rest)))"

text \<open>
  A signed decimal literal or a signed \<open>Infinity\<close> at the head of the text: the number it
  denotes, rounded to binary64, and the text after it.
\<close>

definition scanNumber :: "string \<Rightarrow> (jsnum \<times> string) option" where
  "scanNumber s =
     (let (neg, s2) = takeSign s
      in if take 8 s2 = ''Infinity'' then Some (if neg then NInf else PInf, drop 8 s2)
         else (case scanDecimal s2 of
                 None \<Rightarrow> None
               | Some (v, rest) \<Rightarrow> Some (fl (if neg then - v else v), rest)))"

subsection \<open>The built-in \<open>parseFloat\<close>\<close>

text \<open>
  \<open>parseFloat\<close> on text: leading white space is skipped, then the longest prefix that
  is a decimal literal (or a signed \<open>Infinity\<close>) is read and whatever follows is
  ignored; without such a prefix the result is \<open>NaN\<close>.
\<close>

definition parseFloatString :: "string \<Rightarrow> jsnum" where
  "parseFloatString s =
     (case scanNumber (skipWhiteSpace 0 s) of None \<Rightarrow> NaN | Some (n, rest) \<Rightarrow> n)"

text \<open>
  \<open>parseFloat(value)\<close> converts its argument to text first. A number prints and reads
  back as itself; a missing value prints as \<open>undefined\<close>, \<open>null\<close> as \<open>null\<close>, a boolean
  as \<open>true\<close> or \<open>false\<close>, a plain object as \<open>[object Object]\<close> and a function as its
  source, none of which starts with a number.
\<close>

fun parseFloat :: "jsval \<Rightarrow> jsnum" where
  "parseFloat JUndefined = NaN"
| "parseFloat JNull = NaN"
| "parseFloat (JBool b) = NaN"
| "parseFloat (JNumber n) = asDouble n"
| "parseFloat (JString s) = parseFloatString s"
| "parseFloat JObject = NaN"

subsection \<open>The conversion applied by the arithmetic operators\<close>

text \<open>
  A radix prefix \<open>0x\<close>, \<open>0o\<close> or \<open>0b\<close> (in either case) followed by at least one digit
  of that radix: the integer denoted, rounded to binary64, and the text after it.
\<close>

definition radixLiteral :: "string \<Rightarrow> (jsnum \<times> string) option" where
  "radixLiteral s =
     (case s of
        z # x # ds \<Rightarrow>
          (let base = (if x = CHR ''x'' \<or> x = CHR ''X'' then 16
                       else if x = CHR ''o'' \<or> x = CHR ''O'' then 8
                       else if x = CHR ''b'' \<or> x = CHR ''B'' then 2
                       else 0 :: nat);
               body = takeWhile (\<lambda>c. digitValue c < base) ds
           in if z = CHR ''0'' \<and> body \<noteq> []
              then Some (fl (of_nat (digitsValue base body)),
                         dropWhile (\<lambda>c. digitValue c < base) ds)
              else None)
      | _ \<Rightarrow> None)"

text \<open>
  Text as an operand of \<open>*\<close>, \<open>/\<close> or \<open>>\<close>: white space is trimmed at both ends, the
  empty text is 0, and the rest must be a numeric literal as a whole.
\<close>

definition stringToNumber :: "string \<Rightarrow> jsnum" where
  "stringToNumber s =
     (let t = skipWhiteSpace 0 s
      in if t = [] then Fin 0
         else (case (case radixLiteral t of None \<Rightarrow> scanNumber t | Some r \<Rightarrow> Some r) of
                 None \<Rightarrow> NaN
               | Some (n, rest) \<Rightarrow> if skipWhiteSpace 0 rest = [] then n else NaN))"

fun toNumber :: "jsval \<Rightarrow> jsnum" where
  "toNumber JUndefined = NaN"
| "toNumber JNull = Fin 0"
| "toNumber (JBool b) = Fin (if b then 1 else 0)"
| "toNumber (JNumber n) = asDouble n"
| "toNumber (JString s) = stringToNumber s"
| "toNumber JObject = NaN"

text \<open>Truthiness, and the idiom \<open>value || 0\<close>.\<close>

fun truthy :: "jsval \<Rightarrow> bool" where
  "truthy JUndefined = False"
| "truthy JNull = False"
| "truthy (JBool b) = b"
| "truthy (JNumber n) = (asDouble n \<noteq> NaN \<and> asDouble n \<noteq> Fin 0)"
| "truthy (JString s) = (s \<noteq> [])"
| "truthy JObject = True"

definition orZero :: "jsval \<Rightarrow> jsval" where
  "orZero v = (if truthy v then v else JNumber (Fin 0))"

text \<open>
  An operand of \<open>+\<close>: the number it converts to, or nothing when the operand is text or
  an object, in which case \<open>+\<close> concatenates strings.
\<close>

fun plusOperand :: "jsval \<Rightarrow> jsnum option" where
  "plusOperand JUndefined = Some NaN"
| "plusOperand JNull = Some (Fin 0)"
| "plusOperand (JBool b) = Some (Fin (if b then 1 else 0))"
| "plusOperand (JNumber n) = Some (asDouble n)"
| "plusOperand (JString s) = None"
| "plusOperand JObject = None"

section \<open>Data model (\<open>hooks/useData.ts\<close>)\<close>

datatype SplitType = Equal | Custom

text \<open>
  An object used as a dictionary (\<open>Record<string, T>\<close>) is an association list in
  insertion order, which is the order \<open>Object.values\<close> lists it in; a key is looked up
  with \<open>map_of\<close>. The status dictionaries, which are only read by key, are maps.
\<close>

record BillItem =
  item_id :: string
  item_name :: string
  item_amount :: jsval
  assignedTo :: "string option"
  sharedWith :: "string list"

text \<open>
  The fields the code guards with \<open>?.\<close> or \<open>|| {}\<close> are optional; \<open>amount\<close>,
  \<open>taxPercentage\<close> and \<open>tipsPercentage\<close> hold whatever was stored. The \<open>timestamp\<close>
  is set by the server and read by no function below.
\<close>

record Bill =
  bill_id :: string
  description :: string
  amount :: jsval
  paidBy :: string
  paidByName :: "string option"
  splitAmong :: "string list option"
  splitType :: SplitType
  items :: "BillItem list option"
  itemizedAmounts :: "(string \<times> jsval) list option"
  taxPercentage :: jsval
  tipsPercentage :: jsval
  paidStatus :: "(string \<rightharpoonup> bool) option"
  pendingStatus :: "(string \<rightharpoonup> bool) option"

record Friend =
  friend_id :: string
  friend_name :: string
  friend_email :: "string option"

record UserBalance =
  friendId :: string
  friendName :: string
  owes :: jsnum
  owed :: jsnum
  netBalance :: jsnum

text \<open>
  The names every plain object inherits from \<open>Object.prototype\<close>. Reading such a name
  from an object that has no entry of its own under it yields the inherited member, a
  function or object, which is truthy.
\<close>

definition objectPrototypeKeys :: "string list" where
  "objectPrototypeKeys =
     [''constructor'', ''__defineGetter__'', ''__defineSetter__'', ''hasOwnProperty'',
      ''__lookupGetter__'', ''__lookupSetter__'', ''isPrototypeOf'', ''propertyIsEnumerable'',
      ''toString'', ''valueOf'', ''__proto__'', ''toLocaleString'']"

definition inheritedKey :: "string \<Rightarrow> bool" where
  "inheritedKey k = (k \<in> set objectPrototypeKeys)"

text \<open>
  The idiom \<open>status?.[id] || false\<close>: a missing dictionary reads as false, an entry as
  its value, and a missing entry as false unless the id is an inherited name.
\<close>

definition statusOf :: "(string \<rightharpoonup> bool) option \<Rightarrow> string \<Rightarrow> bool" where
  "statusOf status pid =
     (case status of None \<Rightarrow> False
      | Some m \<Rightarrow> (case m pid of None \<Rightarrow> inheritedKey pid | Some b \<Rightarrow> b))"

text \<open>The idiom \<open>bill.splitAmong || []\<close>.\<close>

definition splitList :: "Bill \<Rightarrow> string list" where
  "splitList bill = (case splitAmong bill of None \<Rightarrow> [] | Some xs \<Rightarrow> xs)"

text \<open>The idiom \<open>bill.itemizedAmounts || {}\<close>.\<close>

definition itemizedOf :: "Bill \<Rightarrow> (string \<times> jsval) list" where
  "itemizedOf bill = (case itemizedAmounts bill of None \<Rightarrow> [] | Some m \<Rightarrow> m)"

text \<open>
  Reading a key of a dictionary: the entry, or else the inherited member for an
  inherited name, or else \<open>undefined\<close>.
\<close>

definition lookupVal :: "(string \<times> jsval) list \<Rightarrow> string \<Rightarrow> jsval" where
  "lookupVal m k =
     (case map_of m k of
        None \<Rightarrow> if inheritedKey k then JObject else JUndefined
      | Some v \<Rightarrow> v)"

section \<open>Share calculator and completion evaluator (\<open>useBalances\<close>)\<close>

definition safeNumber :: "jsval \<Rightarrow> jsnum" where
  "safeNumber v = (let num = parseFloat v in if isNaN num then Fin 0 else num)"

text \<open>\<open>bill.splitAmong?.length || 1\<close>\<close>

definition splitCount :: "Bill \<Rightarrow> nat" where
  "splitCount bill =
     (case splitAmong bill of None \<Rightarrow> 1
      | Some xs \<Rightarrow> if length xs = 0 then 1 else length xs)"

text \<open>\<open>Object.values(itemizedAmounts).reduce((a, b) => a + safeNumber(b), 0)\<close>\<close>

definition itemizedSum :: "(string \<times> jsval) list \<Rightarrow> jsnum" where
  "itemizedSum m = foldl (\<lambda>a b. js_add a (safeNumber b)) (Fin 0) (map snd m)"

definition calculateUserShare :: "Bill \<Rightarrow> string \<Rightarrow> jsnum" where
  "calculateUserShare bill userId =
     (let totalAmount = safeNumber (amount bill)
      in if totalAmount = Fin 0 \<and> splitType bill = Equal then Fin 0
         else if splitType bill = Equal then
           js_div totalAmount (Fin (of_nat (splitCount bill)))
         else
           (let taxPercent = safeNumber (taxPercentage bill);
                tipsPercent = safeNumber (tipsPercentage bill);
                itemizedTotal = itemizedSum (itemizedOf bill);
                taxAmount = js_div (js_mul itemizedTotal taxPercent) (Fin 100);
                tipsAmount = js_div (js_mul itemizedTotal tipsPercent) (Fin 100);
                totalTaxAndTips = js_add taxAmount tipsAmount;
                userItemAmount = safeNumber (lookupVal (itemizedOf bill) userId)
            in if itemizedTotal = Fin 0 then userItemAmount
               else
                 (let shareOfOverheads = js_mul (js_div userItemAmount itemizedTotal) totalTaxAndTips
                  in js_add userItemAmount shareOfOverheads)))"

definition isBillCompleted :: "Bill \<Rightarrow> bool" where
  "isBillCompleted bill =
     (let peopleWhoPay = filter (\<lambda>pid. pid \<noteq> paidBy bill) (splitList bill)
      in if length peopleWhoPay = 0 then True
         else list_all (\<lambda>personId. statusOf (paidStatus bill) personId) peopleWhoPay)"

section \<open>Balance aggregator (\<open>useBalances\<close>)\<close>

definition getFriendName :: "Friend list \<Rightarrow> string \<Rightarrow> string" where
  "getFriendName friends fid =
     (case find (\<lambda>f. friend_id f = fid) friends of
        None \<Rightarrow> ''Unknown Friend''
      | Some f \<Rightarrow> if friend_name f = [] then ''Unknown Friend'' else friend_name f)"

definition newBalance :: "string \<Rightarrow> string \<Rightarrow> UserBalance" where
  "newBalance fid nm =
     \<lparr>friendId = fid, friendName = nm, owes = Fin 0, owed = Fin 0, netBalance = Fin 0\<rparr>"

text \<open>
  The body of the inner loop of the case where the user paid the bill: one step for one
  \<open>personId\<close> of \<open>splitAmong\<close>. \<open>balanceMap\<close> holds the entries of the object; for an
  inherited name without an entry \<open>!balanceMap[personId]\<close> is false, so no entry is
  created and \<open>balanceMap[personId].owes += personShare\<close> sets a property of the
  inherited member, which leaves the balances as they are.
\<close>

definition addOwes ::
  "Friend list \<Rightarrow> string \<Rightarrow> Bill \<Rightarrow> (string \<rightharpoonup> UserBalance) \<Rightarrow> string
     \<Rightarrow> (string \<rightharpoonup> UserBalance)" where
  "addOwes friends userId bill balanceMap personId =
     (if personId = userId then balanceMap
      else if statusOf (paidStatus bill) personId then balanceMap
      else if balanceMap personId = None \<and> inheritedKey personId then balanceMap
      else
        (let entry = (case balanceMap personId of
                        None \<Rightarrow> newBalance personId (getFriendName friends personId)
                      | Some e \<Rightarrow> e);
             personShare = calculateUserShare bill personId
         in balanceMap(personId \<mapsto> entry\<lparr>owes := js_add (owes entry) personShare\<rparr>)))"

text \<open>
  The body of \<open>bills.forEach\<close>: one bill, applied to the balances so far. In the branch
  for a bill someone else paid, a payer whose id is an inherited name and who has no
  entry gets none, as above.
\<close>

definition processBill ::
  "Friend list \<Rightarrow> string \<Rightarrow> (string \<rightharpoonup> UserBalance) \<Rightarrow> Bill
     \<Rightarrow> (string \<rightharpoonup> UserBalance)" where
  "processBill friends userId balanceMap bill =
     (if isBillCompleted bill then balanceMap
      else if \<not> (case splitAmong bill of None \<Rightarrow> False | Some xs \<Rightarrow> userId \<in> set xs)
        then balanceMap
      else
        (let paidByUserId = paidBy bill;
             userShare = calculateUserShare bill userId
         in if paidByUserId = userId then
              foldl (addOwes friends userId bill) balanceMap (splitList bill)
            else if balanceMap paidByUserId = None \<and> inheritedKey paidByUserId
              then balanceMap
            else
              (let entry = (case balanceMap paidByUserId of
                              None \<Rightarrow> newBalance paidByUserId
                                (case paidByName bill of None \<Rightarrow> ''Unknown''
                                 | Some nm \<Rightarrow> if nm = [] then ''Unknown'' else nm)
                            | Some e \<Rightarrow> e);
                   isPaid = statusOf (paidStatus bill) userId
               in balanceMap(paidByUserId \<mapsto>
                    (if \<not> isPaid then entry\<lparr>owed := js_add (owed entry) userShare\<rparr>
                     else entry)))))"

text \<open>The final pass \<open>balance.netBalance = balance.owes - balance.owed\<close> over every entry.\<close>

definition setNet :: "UserBalance \<Rightarrow> UserBalance" where
  "setNet balance = balance\<lparr>netBalance := js_sub (owes balance) (owed balance)\<rparr>"

text \<open>
  \<open>userId\<close> is \<open>string | undefined\<close>; the guard \<open>!userId\<close> also catches the empty
  string.
\<close>

definition useBalances ::
  "Bill list \<Rightarrow> Friend list \<Rightarrow> string option \<Rightarrow> (string \<rightharpoonup> UserBalance)" where
  "useBalances bills friends userId =
     (case userId of None \<Rightarrow> Map.empty
      | Some u \<Rightarrow>
          if u = [] then Map.empty
          else
            (let balanceMap = foldl (processBill friends u) Map.empty bills
             in (\<lambda>k. map_option setNet (balanceMap k))))"


section \<open>The copies of the calculators inside the views\<close>

subsection \<open>Dashboard page (\<open>components/pages/DashboardPage.tsx\<close>)\<close>

definition calculateAmounts_Dashboard :: "Bill \<Rightarrow> string \<Rightarrow> jsnum" where
  "calculateAmounts_Dashboard bill userId =
     (let totalAmount = safeNumber (amount bill)
      in if totalAmount = Fin 0 \<and> splitType bill = Equal then Fin 0
         else if splitType bill = Equal then
           js_div totalAmount (Fin (of_nat (splitCount bill)))
         else
           (let taxPercent = safeNumber (taxPercentage bill);
                tipsPercent = safeNumber (tipsPercentage bill);
                itemizedTotal = itemizedSum (itemizedOf bill);
                taxAmount = js_div (js_mul itemizedTotal taxPercent) (Fin 100);
                tipsAmount = js_div (js_mul itemizedTotal tipsPercent) (Fin 100);
                totalTaxAndTips = js_add taxAmount tipsAmount;
                userItemAmount = safeNumber (lookupVal (itemizedOf bill) userId)
            in if itemizedTotal = Fin 0 then userItemAmount
               else
                 (let shareOfOverheads = js_mul (js_div userItemAmount itemizedTotal) totalTaxAndTips
                  in js_add userItemAmount shareOfOverheads)))"

definition isBillCompleted_Dashboard :: "Bill \<Rightarrow> bool" where
  "isBillCompleted_Dashboard bill =
     (let peopleWhoPay = filter (\<lambda>pid. pid \<noteq> paidBy bill) (splitList bill)
      in if length peopleWhoPay = 0 then True
         else list_all (\<lambda>personId. statusOf (paidStatus bill) personId) peopleWhoPay)"

subsection \<open>Bill detail page\<close>

text \<open>
  The detail page applies the arithmetic operators to the fields as they are, without
  \<open>safeNumber\<close>: \<open>*\<close>, \<open>/\<close> and \<open>>\<close> convert their operands to numbers, while \<open>+\<close>
  concatenates strings as soon as one operand is text or an object. The page reads
  \<open>bill.splitAmong.length\<close> unguarded, which throws a \<open>TypeError\<close> on a bill without
  \<open>splitAmong\<close>. Where \<open>+\<close> concatenates, the page carries text instead of a number; that
  text is not modelled and the outcome is reported as \<open>TextOperand\<close>.
\<close>

datatype viewError = TypeError | TextOperand

text \<open>\<open>Object.values(bill.itemizedAmounts || {}).reduce((a, b) => a + b, 0)\<close>\<close>

definition plainTotal :: "(string \<times> jsval) list \<Rightarrow> jsnum option" where
  "plainTotal m = map_option (foldl js_add (Fin 0)) (those (map (plusOperand \<circ> snd) m))"

text \<open>
  The per-person part of the custom branch: \<open>itemAmount + share\<close> with the share of
  tax and tips taken only when \<open>itemizedTotal > 0\<close>.
\<close>

definition personAmount :: "jsnum \<Rightarrow> jsnum \<Rightarrow> jsval \<Rightarrow> jsnum option" where
  "personAmount itemizedTotal totalTaxAndTips itemAmount =
     (let share = (if js_gt itemizedTotal (Fin 0)
                   then js_mul (js_div (toNumber itemAmount) itemizedTotal) totalTaxAndTips
                   else Fin 0)
      in map_option (\<lambda>a. js_add a share) (plusOperand itemAmount))"

text \<open>
  The current detail page: tax and tips are percentages of the itemized total.
\<close>

definition calculateAmounts_BillDetail :: "Bill \<Rightarrow> viewError + (string \<times> jsnum) list" where
  "calculateAmounts_BillDetail bill =
     (case splitAmong bill of
        None \<Rightarrow> Inl TypeError
      | Some people \<Rightarrow>
          if splitType bill = Equal then
            (let perPerson = js_div (toNumber (amount bill)) (Fin (of_nat (length people)))
             in Inr (map (\<lambda>personId. (personId, perPerson)) people))
          else
            (let taxPercent = orZero (taxPercentage bill);
                 tipsPercent = orZero (tipsPercentage bill)
             in case plainTotal (itemizedOf bill) of
                  None \<Rightarrow> Inl TextOperand
                | Some itemizedTotal \<Rightarrow>
                    (let taxAmount = js_div (js_mul itemizedTotal (toNumber taxPercent)) (Fin 100);
                         tipsAmount = js_div (js_mul itemizedTotal (toNumber tipsPercent)) (Fin 100);
                         totalTaxAndTips = js_add taxAmount tipsAmount
                     in case those (map (\<lambda>personId.
                                 map_option (Pair personId)
                                   (personAmount itemizedTotal totalTaxAndTips
                                      (orZero (lookupVal (itemizedOf bill) personId))))
                               people) of
                          None \<Rightarrow> Inl TextOperand
                        | Some amounts \<Rightarrow> Inr amounts)))"

text \<open>
  The earlier detail page kept in the repository (second document of
  \<open>components/pages/AddBillPage.tsx\<close>): tax and tips are percentages of
  \<open>bill.amount\<close>.
\<close>

definition calculateAmounts_BillDetailOld :: "Bill \<Rightarrow> viewError + (string \<times> jsnum) list" where
  "calculateAmounts_BillDetailOld bill =
     (case splitAmong bill of
        None \<Rightarrow> Inl TypeError
      | Some people \<Rightarrow>
          if splitType bill = Equal then
            (let perPerson = js_div (toNumber (amount bill)) (Fin (of_nat (length people)))
             in Inr (map (\<lambda>personId. (personId, perPerson)) people))
          else
            (let baseAmount = toNumber (amount bill);
                 taxPercent = orZero (taxPercentage bill);
                 tipsPercent = orZero (tipsPercentage bill)
             in case plainTotal (itemizedOf bill) of
                  None \<Rightarrow> Inl TextOperand
                | Some itemizedTotal \<Rightarrow>
                    (let taxAmount = js_div (js_mul baseAmount (toNumber taxPercent)) (Fin 100);
                         tipsAmount = js_div (js_mul baseAmount (toNumber tipsPercent)) (Fin 100);
                         totalTaxAndTips = js_add taxAmount tipsAmount
                     in case those (map (\<lambda>personId.
                                 map_option (Pair personId)
                                   (personAmount itemizedTotal totalTaxAndTips
                                      (orZero (lookupVal (itemizedOf bill) personId))))
                               people) of
                          None \<Rightarrow> Inl TextOperand
                        | Some amounts \<Rightarrow> Inr amounts)))"

section \<open>Bill lifecycle operations\<close>

subsection \<open>Creation (\<open>createBill\<close> in \<open>hooks/useData.ts\<close>)\<close>

datatype error = Unauthenticated

record BillData =
  new_description :: string
  new_amount :: jsval
  new_paidBy :: string
  new_splitAmong :: "string list"
  new_splitType :: SplitType
  new_items :: "BillItem list option"
  new_itemizedAmounts :: "(string \<times> jsval) list option"
  new_taxPercentage :: jsval
  new_tipsPercentage :: jsval

text \<open>
  What \<open>getDoc(doc(db, "users", paidBy))\<close> gave: the read failed (the error is caught
  and logged), no such document, or a document with or without a \<open>name\<close>.
\<close>

datatype payerDoc = ReadFailed | NoDocument | Document "string option"

definition payerName :: "payerDoc \<Rightarrow> string" where
  "payerName d =
     (case d of
        Document (Some nm) \<Rightarrow> if nm = [] then ''Unknown'' else nm
      | _ \<Rightarrow> ''Unknown'')"

text \<open>The loop \<open>billData.splitAmong.forEach\<close> that fills both status dictionaries.\<close>

definition initStatus ::
  "string \<Rightarrow> string list \<Rightarrow> (string \<rightharpoonup> bool) \<times> (string \<rightharpoonup> bool)" where
  "initStatus payer people =
     foldl (\<lambda>(paid, pending) uid. (paid(uid \<mapsto> (uid = payer)), pending(uid \<mapsto> False)))
       (Map.empty, Map.empty) people"

text \<open>\<open>typeof amount === 'string' ? parseFloat(amount) : amount\<close>\<close>

definition finalAmount :: "jsval \<Rightarrow> jsval" where
  "finalAmount a = (case a of JString s \<Rightarrow> JNumber (parseFloat (JString s)) | _ \<Rightarrow> a)"

text \<open>
  \<open>createBill\<close> with the signed-in user (if any) and the payer's user document as
  read. Its result is the document handed to \<open>addDoc\<close>, under the identifier \<open>newId\<close>
  the collection gives it; a write the store rejects makes the whole call fail after
  this point and is not modelled.
\<close>

definition createBill :: "string option \<Rightarrow> payerDoc \<Rightarrow> string \<Rightarrow> BillData \<Rightarrow> error + Bill" where
  "createBill user payer newId billData =
     (case user of
        None \<Rightarrow> Inl Unauthenticated
      | Some uid \<Rightarrow>
          (let (paid, pending) = initStatus (new_paidBy billData) (new_splitAmong billData)
           in Inr \<lparr>bill_id = newId,
                   description = new_description billData,
                   amount = finalAmount (new_amount billData),
                   paidBy = new_paidBy billData,
                   paidByName = Some (payerName payer),
                   splitAmong = Some (new_splitAmong billData),
                   splitType = new_splitType billData,
                   items = new_items billData,
                   itemizedAmounts = new_itemizedAmounts billData,
                   taxPercentage = new_taxPercentage billData,
                   tipsPercentage = new_tipsPercentage billData,
                   paidStatus = Some paid,
                   pendingStatus = Some pending\<rparr>))"

subsection \<open>Confirming a payment (\<open>handleConfirmPaid\<close> on the bill detail page)\<close>

text \<open>
  The \<open>Partial<Bill>\<close> passed to \<open>onUpdateBill\<close>: of the fields of a bill, the
  status handlers only ever set these two.
\<close>

record BillPatch =
  set_paidStatus :: "(string \<rightharpoonup> bool) option"
  set_pendingStatus :: "(string \<rightharpoonup> bool) option"

text \<open>\<open>bill.paidStatus || {}\<close>\<close>

definition statusMap :: "(string \<rightharpoonup> bool) option \<Rightarrow> (string \<rightharpoonup> bool)" where
  "statusMap status = (case status of None \<Rightarrow> Map.empty | Some m \<Rightarrow> m)"

text \<open>The calls of \<open>onUpdateBill(billId, updates)\<close> the handler makes, in order.\<close>

definition handleConfirmPaid :: "Bill \<Rightarrow> string \<Rightarrow> (string \<times> BillPatch) list" where
  "handleConfirmPaid bill personId =
     (let currentPaid = statusMap (paidStatus bill);
          currentPending = statusMap (pendingStatus bill);
          newPaid = currentPaid(personId \<mapsto> True);
          newPending = currentPending(personId \<mapsto> False)
      in [(bill_id bill, \<lparr>set_paidStatus = Some newPaid, set_pendingStatus = Some newPending\<rparr>)])"


section \<open>Vocabulary of the statements and example bills\<close>

text \<open>A number that is neither \<open>NaN\<close> nor an infinity, and the rational it stands for.\<close>

fun isFinite :: "jsnum \<Rightarrow> bool" where
  "isFinite (Fin a) = True"
| "isFinite n = False"

fun ratOf :: "jsnum \<Rightarrow> rat" where
  "ratOf (Fin a) = a"
| "ratOf n = 0"

text \<open>
  \<open>paidStatus[p]\<close> is true, a missing dictionary or entry counting as false: the reading
  of the paid flag in the specification.
\<close>

definition markedPaid :: "Bill \<Rightarrow> string \<Rightarrow> bool" where
  "markedPaid bill p = (case paidStatus bill of None \<Rightarrow> False | Some m \<Rightarrow> m p = Some True)"

text \<open>
  The bills that create or update the entry of \<open>f\<close> in the balances of \<open>userId\<close>: a bill
  that is not completed and has the user in \<open>splitAmong\<close>, and either the user paid it
  and \<open>f\<close> is another participant not marked paid, or \<open>f\<close> paid it.
\<close>

definition touches :: "string \<Rightarrow> string \<Rightarrow> Bill \<Rightarrow> bool" where
  "touches userId f bill =
     (\<not> isBillCompleted bill \<and> userId \<in> set (splitList bill) \<and>
      (if paidBy bill = userId
       then f \<in> set (splitList bill) \<and> f \<noteq> userId \<and> \<not> markedPaid bill f
       else f = paidBy bill))"

text \<open>A number that is \<open>NaN\<close> or not negative.\<close>

definition notNegative :: "jsnum \<Rightarrow> bool" where
  "notNegative n = (n = NaN \<or> js_ge n (Fin 0))"

text \<open>A field that coerces to a number that is not negative (possibly \<open>Infinity\<close>).\<close>

definition nonNegative :: "jsval \<Rightarrow> bool" where
  "nonNegative v = js_ge (safeNumber v) (Fin 0)"






text \<open>
  A bill whose fields hold what the interface \<open>Bill\<close> declares: the amount is a finite
  number, each percentage is a finite number or missing, and every itemized amount is a
  finite number that is not negative.
\<close>

fun plainField :: "jsval \<Rightarrow> bool" where
  "plainField JUndefined = True"
| "plainField (JNumber (Fin t)) = True"
| "plainField v = False"

fun plainAmount :: "jsval \<Rightarrow> bool" where
  "plainAmount (JNumber (Fin r)) = (0 \<le> r)"
| "plainAmount v = False"

definition plainBill :: "Bill \<Rightarrow> bool" where
  "plainBill bill =
     ((case amount bill of JNumber (Fin a) \<Rightarrow> True | _ \<Rightarrow> False)
      \<and> plainField (taxPercentage bill) \<and> plainField (tipsPercentage bill)
      \<and> list_all (\<lambda>(k, v). plainAmount v) (itemizedOf bill))"

text \<open>Amount 90, split equally among the payer \<open>U\<close> and the friends \<open>F1\<close> and \<open>F2\<close>.\<close>

definition billA :: Bill where
  "billA = \<lparr>bill_id = ''A'', description = ''dinner'', amount = JNumber (Fin 90),
     paidBy = ''U'', paidByName = Some ''Uma'', splitAmong = Some [''U'', ''F1'', ''F2''],
     splitType = Equal, items = None, itemizedAmounts = None,
     taxPercentage = JUndefined, tipsPercentage = JUndefined,
     paidStatus = Some [''U'' \<mapsto> True, ''F1'' \<mapsto> False, ''F2'' \<mapsto> False],
     pendingStatus = Some [''U'' \<mapsto> False, ''F1'' \<mapsto> False, ''F2'' \<mapsto> False]\<rparr>"

text \<open>The same bill with an amount that is no number.\<close>

definition billZero :: Bill where
  "billZero = billA\<lparr>amount := JString ''n/a''\<rparr>"

text \<open>The same bill with an amount of 100.\<close>

definition billThirds :: Bill where
  "billThirds = billA\<lparr>amount := JNumber (Fin 100)\<rparr>"

text \<open>Amount 50, split equally among six.\<close>

definition billSix :: Bill where
  "billSix = billA\<lparr>amount := JNumber (Fin 50),
     splitAmong := Some [''U'', ''F1'', ''F2'', ''F3'', ''F4'', ''F5'']\<rparr>"

text \<open>Bill \<open>A\<close> after \<open>F2\<close> was confirmed as paid.\<close>

definition billHalfPaid :: Bill where
  "billHalfPaid = billA\<lparr>paidStatus := Some [''U'' \<mapsto> True, ''F1'' \<mapsto> False, ''F2'' \<mapsto> True]\<rparr>"

text \<open>Bill \<open>A\<close> after both friends were confirmed as paid.\<close>

definition billDone :: Bill where
  "billDone = billA\<lparr>paidStatus := Some [''U'' \<mapsto> True, ''F1'' \<mapsto> True, ''F2'' \<mapsto> True]\<rparr>"

text \<open>
  A custom split: items of 40 for \<open>P\<close> and 60 for \<open>Q\<close>, tax 10 percent, tips 5
  percent, and a stored amount of 120.
\<close>

definition billB :: Bill where
  "billB = \<lparr>bill_id = ''B'', description = ''lunch'', amount = JNumber (Fin 120),
     paidBy = ''P'', paidByName = Some ''Pat'', splitAmong = Some [''P'', ''Q''],
     splitType = Custom, items = None,
     itemizedAmounts = Some [(''P'', JNumber (Fin 40)), (''Q'', JNumber (Fin 60))],
     taxPercentage = JNumber (Fin 10), tipsPercentage = JNumber (Fin 5),
     paidStatus = Some [''P'' \<mapsto> True, ''Q'' \<mapsto> False],
     pendingStatus = Some [''P'' \<mapsto> False, ''Q'' \<mapsto> False]\<rparr>"

text \<open>
  Amount 50 paid by \<open>F2\<close> and split equally with the user \<open>U\<close>, who has reported the
  payment (pending) but is not confirmed as paid.
\<close>

definition billC :: Bill where
  "billC = \<lparr>bill_id = ''C'', description = ''taxi'', amount = JNumber (Fin 50),
     paidBy = ''F2'', paidByName = Some ''Finn'', splitAmong = Some [''U'', ''F2''],
     splitType = Equal, items = None, itemizedAmounts = None,
     taxPercentage = JUndefined, tipsPercentage = JUndefined,
     paidStatus = Some [''U'' \<mapsto> False, ''F2'' \<mapsto> True],
     pendingStatus = Some [''U'' \<mapsto> True, ''F2'' \<mapsto> False]\<rparr>"

text \<open>
  Amount 90 paid by \<open>F\<close> and split equally among \<open>U\<close>, \<open>F\<close> and \<open>G\<close>: the user
  \<open>U\<close> is confirmed as paid, \<open>G\<close> is not, so the bill is not completed.
\<close>

definition billSettled :: Bill where
  "billSettled = \<lparr>bill_id = ''S'', description = ''rent'', amount = JNumber (Fin 90),
     paidBy = ''F'', paidByName = Some ''Flo'', splitAmong = Some [''U'', ''F'', ''G''],
     splitType = Equal, items = None, itemizedAmounts = None,
     taxPercentage = JUndefined, tipsPercentage = JUndefined,
     paidStatus = Some [''U'' \<mapsto> True, ''F'' \<mapsto> True, ''G'' \<mapsto> False],
     pendingStatus = Some [''U'' \<mapsto> False, ''F'' \<mapsto> False, ''G'' \<mapsto> False]\<rparr>"



text \<open>A custom split whose item amounts cancel: 40 for \<open>P\<close> and -40 for \<open>Q\<close>.\<close>

definition billCancel :: Bill where
  "billCancel = billB\<lparr>itemizedAmounts :=
     Some [(''P'', JNumber (Fin 40)), (''Q'', JNumber (Fin (- 40)))]\<rparr>"


text \<open>
  Two bills the user \<open>U\<close> paid, with a participant whose id is the inherited name
  \<open>constructor\<close>: in the first the participant has no paid status at all, in the second
  it is recorded as not paid.
\<close>

definition billProto :: Bill where
  "billProto = billA\<lparr>splitAmong := Some [''U'', ''constructor''],
     paidStatus := Some [''U'' \<mapsto> True]\<rparr>"

definition billProtoUnpaid :: Bill where
  "billProtoUnpaid = billA\<lparr>splitAmong := Some [''U'', ''constructor''],
     paidStatus := Some [''U'' \<mapsto> True, ''constructor'' \<mapsto> False]\<rparr>"

text \<open>A request to create bill \<open>A\<close>.\<close>

definition dataA :: BillData where
  "dataA = \<lparr>new_description = ''dinner'', new_amount = JString ''90'',
     new_paidBy = ''U'', new_splitAmong = [''U'', ''F1'', ''F2''], new_splitType = Equal,
     new_items = None, new_itemizedAmounts = None,
     new_taxPercentage = JUndefined, new_tipsPercentage = JUndefined\<rparr>"

section \<open>Properties of the rounding function\<close>

lemma pow2_add: "(2::rat) powi (a + b) = 2 powi a * 2 powi b"
  by (simp add: power_int_add)

lemma pow2_shift: "(2::rat) powi e = 2 ^ n * 2 powi (e - int n)"
proof -
  have "(2::rat) powi e = 2 powi (int n + (e - int n))" by simp
  also have "\<dots> = 2 powi int n * 2 powi (e - int n)" by (rule pow2_add)
  finally show ?thesis by simp
qed

lemma pow2_bitlen:
  assumes "0 < (p::int)"
  shows "(2::rat) powi (bitlen p - 1) \<le> of_int p" and "of_int p < (2::rat) powi bitlen p"
proof -
  from assms have b: "1 \<le> bitlen p" by (simp add: bitlen_alt_def)
  from bitlen_bounds [OF assms] have "2 ^ nat (bitlen p - 1) \<le> p" and "p < 2 ^ nat (bitlen p)"
    by simp_all
  then have "(of_int (2 ^ nat (bitlen p - 1)) :: rat) \<le> of_int p"
    and "(of_int p :: rat) < of_int (2 ^ nat (bitlen p))"
    by (simp_all only: of_int_le_iff of_int_less_iff)
  with b show "(2::rat) powi (bitlen p - 1) \<le> of_int p" and "of_int p < (2::rat) powi bitlen p"
    by (simp_all add: power_int_def)
qed

lemma expOf_bounds:
  assumes "x \<noteq> 0"
  shows "2 powi expOf x \<le> \<bar>x\<bar>" and "\<bar>x\<bar> < 2 powi (expOf x + 1)"
proof -
  obtain p q where pq: "quotient_of \<bar>x\<bar> = (p, q)" by (cases "quotient_of \<bar>x\<bar>")
  then have q: "0 < q" by (rule quotient_of_denom_pos)
  from pq have x: "\<bar>x\<bar> = of_int p / of_int q" by (rule quotient_of_div)
  from assms have "0 < \<bar>x\<bar>" by simp
  with x q have p: "0 < p" by (simp add: zero_less_divide_iff)
  let ?d = "bitlen p - bitlen q"
  note bp = pow2_bitlen [OF p] and bq = pow2_bitlen [OF q]
  have qpos: "(0::rat) < of_int q" using q by simp
  have "\<bar>x\<bar> < 2 powi bitlen p / of_int q"
    unfolding x using bp(2) qpos by (simp add: divide_strict_right_mono)
  also have "\<dots> \<le> 2 powi bitlen p / 2 powi (bitlen q - 1)"
  proof (intro divide_left_mono)
    show "2 powi (bitlen q - 1) \<le> rat_of_int q" by (rule bq(1))
    show "(0::rat) \<le> 2 powi bitlen p" by simp
    have "(0::rat) < 2 powi (bitlen q - 1)" by simp
    with qpos show "0 < rat_of_int q * 2 powi (bitlen q - 1)" by (rule mult_pos_pos)
  qed
  also have "\<dots> = 2 powi (?d + 1)"
    by (simp add: power_int_diff [symmetric] algebra_simps)
  finally have up: "\<bar>x\<bar> < 2 powi (?d + 1)" .
  have "2 powi (?d - 1) = 2 powi (bitlen p - 1) / (2::rat) powi bitlen q"
    by (simp add: power_int_diff [symmetric] algebra_simps)
  also have "\<dots> \<le> of_int p / 2 powi bitlen q"
    using bp(1) by (simp add: divide_right_mono)
  also have "\<dots> < of_int p / of_int q"
    using bq(2) p qpos by (intro divide_strict_left_mono) simp_all
  finally have lo: "2 powi (?d - 1) < \<bar>x\<bar>" by (simp add: x)
  have e: "expOf x = (if 2 powi ?d \<le> \<bar>x\<bar> then ?d else ?d - 1)"
    by (simp add: expOf_def pq Let_def)
  show "2 powi expOf x \<le> \<bar>x\<bar>" using lo by (simp add: e)
  show "\<bar>x\<bar> < 2 powi (expOf x + 1)" using up by (auto simp: e)
qed

lemma expOf_eqI:
  assumes "2 powi k \<le> \<bar>x\<bar>" and "\<bar>x\<bar> < 2 powi (k + 1)"
  shows "expOf x = k"
proof -
  have "(0::rat) < 2 powi k" by simp
  with assms(1) have "0 < \<bar>x\<bar>" by linarith
  then have x: "x \<noteq> 0" by simp
  note b = expOf_bounds [OF x]
  have "(2::rat) powi k < 2 powi (expOf x + 1)" using assms(1) b(2) by simp
  then have 1: "k < expOf x + 1"
    by (metis (no_types) power_int_strict_increasing not_less_iff_gr_or_eq one_less_numeral_iff
        semiring_norm(76) less_asym)
  have "(2::rat) powi expOf x < 2 powi (k + 1)" using assms(2) b(1) by simp
  then have 2: "expOf x < k + 1"
    by (metis (no_types) power_int_strict_increasing not_less_iff_gr_or_eq one_less_numeral_iff
        semiring_norm(76) less_asym)
  from 1 2 show ?thesis by simp
qed


subsection \<open>Rounding to an integer\<close>

lemma roundEven_cases:
  "roundEven q = \<lfloor>q\<rfloor> \<and> q - of_int \<lfloor>q\<rfloor> \<le> 1 / 2
   \<or> roundEven q = \<lfloor>q\<rfloor> + 1 \<and> 1 / 2 \<le> q - of_int \<lfloor>q\<rfloor>"
  by (auto simp: roundEven_def Let_def)

lemma roundEven_err: "\<bar>of_int (roundEven q) - q\<bar> \<le> 1 / 2"
proof -
  have "of_int \<lfloor>q\<rfloor> \<le> q" and "q < of_int \<lfloor>q\<rfloor> + 1" by linarith+
  with roundEven_cases [of q] show ?thesis by auto
qed

lemma roundEven_of_int [simp]: "roundEven (of_int n) = n"
  by (simp add: roundEven_def)

lemma roundEven_eqI:
  assumes "\<bar>q - of_int n\<bar> < 1 / 2"
  shows "roundEven q = n"
proof -
  from roundEven_err [of q] assms have "\<bar>(of_int (roundEven q) :: rat) - of_int n\<bar> < 1"
    by linarith
  then have "\<bar>(of_int (roundEven q - n) :: rat)\<bar> < 1" by simp
  then have "\<bar>roundEven q - n\<bar> < 1"
    by (metis of_int_abs of_int_less_1_iff)
  then show ?thesis by simp
qed

lemma roundEven_ge:
  assumes "of_int k \<le> q"
  shows "k \<le> roundEven q"
proof -
  from assms have "k \<le> \<lfloor>q\<rfloor>" by (simp add: le_floor_iff)
  with roundEven_cases [of q] show ?thesis by auto
qed

lemma roundEven_le:
  assumes "q \<le> of_int k"
  shows "roundEven q \<le> k"
proof (cases "q = of_int k")
  case True
  then show ?thesis by simp
next
  case False
  with assms have "q < of_int k" by simp
  then have "\<lfloor>q\<rfloor> < k" by (simp add: floor_less_iff)
  with roundEven_cases [of q] show ?thesis by auto
qed

subsection \<open>Rounding to binary64\<close>

lemma expOf_minus [simp]: "expOf (- x) = expOf x"
  by (simp add: expOf_def)

lemma fl_minus: "fl (- x) = js_neg (fl x)"
  by (simp add: fl_def Let_def)

lemma fl_pos:
  assumes "0 < x"
  shows "fl x =
     (let e = max (expOf x) (- 1022);
          ulp = 2 powi (e - 52);
          y = of_int (roundEven (x / ulp)) * ulp
      in if 2 ^ 1024 \<le> y then PInf else Fin y)"
  using assms by (simp add: fl_def Let_def)

text \<open>The scaled magnitude lies below \<open>2^53\<close>, and from \<open>2^52\<close> on for a normal number.\<close>

lemma scaled_less:
  assumes "0 < x" and "expOf x \<le> e"
  shows "x / 2 powi (e - 52) < 2 ^ 53"
proof -
  from assms(1) have "x \<noteq> 0" by simp
  from expOf_bounds(2) [OF this] assms(1) have "x < 2 powi (expOf x + 1)" by simp
  also have "\<dots> \<le> 2 powi (e + 1)"
    using assms(2) by (intro power_int_increasing) simp_all
  also have "\<dots> = 2 ^ 53 * 2 powi (e - 52)"
    using pow2_shift [of "e + 1" 53] by simp
  finally show ?thesis by (simp add: pos_divide_less_eq)
qed

lemma scaled_ge:
  assumes "0 < x"
  shows "2 ^ 52 \<le> x / 2 powi (expOf x - 52)"
proof -
  from assms have "x \<noteq> 0" by simp
  from expOf_bounds(1) [OF this] assms have "2 powi expOf x \<le> x" by simp
  moreover have "2 powi expOf x = 2 ^ 52 * (2::rat) powi (expOf x - 52)"
    using pow2_shift [of "expOf x" 52] by simp
  ultimately show ?thesis by (simp add: pos_le_divide_eq)
qed


lemma pow2_less_iff: "(2::rat) powi a < 2 powi b \<longleftrightarrow> a < b"
proof
  assume l: "(2::rat) powi a < 2 powi b"
  show "a < b"
  proof (rule ccontr)
    assume "\<not> a < b"
    then have "b \<le> a" by simp
    then have "(2::rat) powi b \<le> 2 powi a" by (intro power_int_increasing) simp_all
    with l show False by simp
  qed
next
  assume "a < b"
  then show "(2::rat) powi a < 2 powi b" by (intro power_int_strict_increasing) simp_all
qed

lemma pow2_le_iff: "(2::rat) powi a \<le> 2 powi b \<longleftrightarrow> a \<le> b"
  using pow2_less_iff [of b a] by (simp add: not_less [symmetric])

lemma pow2_div: "(2::rat) powi a / 2 powi b = 2 powi (a - b)"
  by (simp add: power_int_diff)

lemma pow2_nat: "0 \<le> a \<Longrightarrow> (2::rat) powi a = of_int (2 ^ nat a)"
  by (simp add: power_int_def)

lemma fl_exact_pos:
  assumes m: "0 < m" "m < 2 ^ 53" and j: "- 1074 \<le> j" "j \<le> 971"
  shows "fl (of_int m * 2 powi j) = Fin (of_int m * 2 powi j)"
proof -
  let ?x = "of_int m * (2::rat) powi j"
  have xpos: "0 < ?x" using m(1) by (simp add: zero_less_mult_iff)
  have x0: "?x \<noteq> 0" using m(1) by simp
  have "(of_int m :: rat) < 2 ^ 53" using m(2) by (metis of_int_less_numeral_power_cancel_iff)
  then have xlt: "?x < 2 ^ 53 * 2 powi j" by (simp add: mult_strict_right_mono)
  also have "\<dots> = 2 powi (j + 53)" using pow2_shift [of "j + 53" 53] by simp
  finally have up: "?x < 2 powi (j + 53)" .
  from expOf_bounds(1) [OF x0] xpos have "2 powi expOf ?x \<le> ?x" by simp
  with up have "(2::rat) powi expOf ?x < 2 powi (j + 53)" by simp
  then have k: "expOf ?x < j + 53" by (simp only: pow2_less_iff)
  define e where "e = max (expOf ?x) (- 1022)"
  from k j(1) have e: "0 \<le> j - (e - 52)" by (simp add: e_def)
  have "?x / 2 powi (e - 52) = of_int m * 2 powi (j - (e - 52))"
    by (simp add: pow2_div [symmetric])
  also have "\<dots> = of_int (m * 2 ^ nat (j - (e - 52)))"
    by (simp add: pow2_nat [OF e])
  finally have q: "?x / 2 powi (e - 52) = of_int (m * 2 ^ nat (j - (e - 52)))" .
  have y: "of_int (roundEven (?x / 2 powi (e - 52))) * 2 powi (e - 52) = ?x"
    unfolding q roundEven_of_int unfolding q [symmetric] by simp
  have "(2::rat) powi j \<le> 2 powi 971" using j(2) by (simp only: pow2_le_iff)
  then have a: "2 ^ 53 * (2::rat) powi j \<le> 2 ^ 53 * 2 powi 971"
    by (intro mult_left_mono) simp_all
  have b: "2 ^ 53 * (2::rat) powi 971 = 2 ^ 1024" by simp
  from xlt a have "?x < 2 ^ 53 * 2 powi 971" by (rule less_le_trans)
  then have "?x < 2 ^ 1024" by (simp only: b)
  then have "\<not> 2 ^ 1024 \<le> ?x" by (simp only: not_le)
  then show ?thesis
    unfolding fl_pos [OF xpos] Let_def e_def [symmetric] y by (simp only: if_False)
qed

lemma fl_exact:
  assumes "\<bar>m\<bar> < 2 ^ 53" and "- 1074 \<le> j" and "j \<le> 971"
  shows "fl (of_int m * 2 powi j) = Fin (of_int m * 2 powi j)"
proof -
  consider "m = 0" | "0 < m" | "m < 0" by linarith
  then show ?thesis
  proof cases
    case 1
    then show ?thesis by (simp add: fl_def)
  next
    case 2
    with assms show ?thesis by (intro fl_exact_pos) simp_all
  next
    case 3
    with assms have "fl (of_int (- m) * 2 powi j) = Fin (of_int (- m) * 2 powi j)"
      by (intro fl_exact_pos) simp_all
    then have "fl (- (of_int m * 2 powi j)) = Fin (- (of_int m * 2 powi j))" by simp
    then show ?thesis by (cases "fl (of_int m * 2 powi j)") (simp_all add: fl_minus)
  qed
qed


lemma fl_pos_cases:
  assumes "0 < x"
  obtains (overflow) "fl x = PInf"
  | (finite) e n where "e = max (expOf x) (- 1022)" "n = roundEven (x / 2 powi (e - 52))"
      "fl x = Fin (of_int n * 2 powi (e - 52))" "of_int n * (2::rat) powi (e - 52) < 2 ^ 1024"
      "0 \<le> n" "n \<le> 2 ^ 53"
proof -
  define e where "e = max (expOf x) (- 1022)"
  define n where "n = roundEven (x / 2 powi (e - 52))"
  have u: "(0::rat) < 2 powi (e - 52)" by simp
  have "(of_int 0 :: rat) \<le> x / 2 powi (e - 52)" using assms u by simp
  then have n0: "0 \<le> n" unfolding n_def by (rule roundEven_ge)
  have "x / 2 powi (e - 52) < 2 ^ 53" using assms by (rule scaled_less) (simp add: e_def)
  then have "x / 2 powi (e - 52) \<le> of_int (2 ^ 53)" by simp
  then have n1: "n \<le> 2 ^ 53" unfolding n_def by (rule roundEven_le)
  show thesis
  proof (cases "2 ^ 1024 \<le> of_int n * (2::rat) powi (e - 52)")
    case True
    then have "fl x = PInf"
      unfolding fl_pos [OF assms] Let_def e_def [symmetric] n_def [symmetric] by (simp only: if_True)
    then show thesis by (rule overflow)
  next
    case False
    then have "fl x = Fin (of_int n * 2 powi (e - 52))"
      unfolding fl_pos [OF assms] Let_def e_def [symmetric] n_def [symmetric] by (simp only: if_False)
    moreover from False have "of_int n * (2::rat) powi (e - 52) < 2 ^ 1024" by (simp only: not_le)
    ultimately show thesis using e_def n_def n0 n1 by (intro finite)
  qed
qed

lemma fl_form_pos:
  assumes "0 < x" and "fl x = Fin y"
  shows "\<exists>m j. y = of_int m * 2 powi j \<and> \<bar>m\<bar> < 2 ^ 53 \<and> - 1074 \<le> j \<and> j \<le> 971"
  using assms(1)
proof (cases rule: fl_pos_cases)
  case overflow
  with assms(2) show ?thesis by simp
next
  case (finite e n)
  from finite(3) assms(2) have y: "y = of_int n * 2 powi (e - 52)" by simp
  have e0: "- 1022 \<le> e" by (simp add: finite(1))
  show ?thesis
  proof (cases "n = 0")
    case True
    have "y = of_int 0 * 2 powi 0" using y True by simp
    moreover have "\<bar>0::int\<bar> < 2 ^ 53" "- 1074 \<le> (0::int)" "(0::int) \<le> 971" by simp_all
    ultimately show ?thesis by blast
  next
    case False
    with finite(5) have npos: "0 < n" by simp
    show ?thesis
    proof (cases "n = 2 ^ 53")
      case True
      have "y = 2 ^ 53 * 2 powi (e - 52)" using y True by simp
      also have "\<dots> = 2 powi (e + 1)" using pow2_shift [of "e + 1" 53] by simp
      finally have y1: "y = 2 powi (e + 1)" .
      from finite(4) y have "y < 2 powi 1024" by simp
      with y1 have "(2::rat) powi (e + 1) < 2 powi 1024" by simp
      then have e1: "e + 1 < 1024" by (simp only: pow2_less_iff)
      have "y = of_int (2 ^ 52) * 2 powi (e - 51)"
        unfolding y1 using pow2_shift [of "e + 1" 52] by simp
      moreover have "\<bar>2 ^ 52 :: int\<bar> < 2 ^ 53" by simp
      moreover have "- 1074 \<le> e - 51" "e - 51 \<le> 971" using e0 e1 by simp_all
      ultimately show ?thesis by blast
    next
      case neq: False
      with finite(6) have n53: "n < 2 ^ 53" by simp
      have "e \<le> 1023"
      proof (rule ccontr)
        assume "\<not> e \<le> 1023"
        then have big: "1024 \<le> e" by simp
        with finite(1) have ee: "e = expOf x" by (simp add: max_def split: if_splits)
        from scaled_ge [OF assms(1)] have "of_int (2 ^ 52) \<le> x / 2 powi (e - 52)"
          by (simp add: ee)
        then have "2 ^ 52 \<le> n" unfolding finite(2) by (rule roundEven_ge)
        then have "(2 ^ 52 :: rat) \<le> of_int n" by (metis of_int_le_iff of_int_numeral of_int_power)
        then have a: "2 ^ 52 * (2::rat) powi (e - 52) \<le> of_int n * 2 powi (e - 52)"
          by (intro mult_right_mono) simp_all
        have b: "2 ^ 52 * (2::rat) powi (e - 52) = 2 powi e"
          using pow2_shift [of e 52] by simp
        have c: "(2::rat) powi 1024 \<le> 2 powi e" using big by (simp only: pow2_le_iff)
        have d: "(2::rat) powi 1024 = 2 ^ 1024" by simp
        from a have "2 powi e \<le> of_int n * (2::rat) powi (e - 52)" by (simp only: b)
        with c have "(2::rat) powi 1024 \<le> of_int n * 2 powi (e - 52)" by (rule order_trans)
        then have "2 ^ 1024 \<le> of_int n * (2::rat) powi (e - 52)" by (simp only: d)
        moreover from finite(4) have "\<not> 2 ^ 1024 \<le> of_int n * (2::rat) powi (e - 52)"
          by (simp only: not_le)
        ultimately show False by (rule notE [rotated])
      qed
      with e0 have "- 1074 \<le> e - 52" "e - 52 \<le> 971" by simp_all
      moreover from npos n53 have "\<bar>n\<bar> < 2 ^ 53" by simp
      ultimately show ?thesis using y by blast
    qed
  qed
qed

lemma fl_form:
  assumes "fl x = Fin y"
  shows "\<exists>m j. y = of_int m * 2 powi j \<and> \<bar>m\<bar> < 2 ^ 53 \<and> - 1074 \<le> j \<and> j \<le> 971"
proof -
  consider "x = 0" | "0 < x" | "x < 0" by linarith
  then show ?thesis
  proof cases
    case 1
    with assms have "y = of_int 0 * 2 powi 0" by (simp add: fl_def)
    moreover have "\<bar>0::int\<bar> < 2 ^ 53" "- 1074 \<le> (0::int)" "(0::int) \<le> 971" by simp_all
    ultimately show ?thesis by blast
  next
    case 2
    then show ?thesis using assms by (rule fl_form_pos)
  next
    case 3
    then have p: "0 < - x" by simp
    from assms have "fl (- x) = Fin (- y)" by (simp add: fl_minus)
    from fl_form_pos [OF p this] obtain m j where
      "- y = of_int m * 2 powi j" "\<bar>m\<bar> < 2 ^ 53" "- 1074 \<le> j" "j \<le> 971" by blast
    then have "y = of_int (- m) * 2 powi j" "\<bar>- m\<bar> < 2 ^ 53" "- 1074 \<le> j" "j \<le> 971"
      by (simp_all add: minus_equation_iff [of y])
    then show ?thesis by blast
  qed
qed

lemma fl_idem:
  assumes "fl x = Fin y"
  shows "fl y = Fin y"
proof -
  from fl_form [OF assms] obtain m j where
    "y = of_int m * 2 powi j" "\<bar>m\<bar> < 2 ^ 53" "- 1074 \<le> j" "j \<le> 971" by blast
  then show ?thesis by (simp only: fl_exact)
qed


lemma fl_not_NaN [simp]: "fl x \<noteq> NaN"
  by (simp add: fl_def Let_def)

lemma fl_nonneg:
  assumes "0 \<le> x"
  shows "fl x \<noteq> NInf" and "fl x = Fin y \<Longrightarrow> 0 \<le> y"
proof -
  show "fl x \<noteq> NInf"
  proof (cases "x = 0")
    case True
    then show ?thesis by (simp add: fl_def)
  next
    case False
    with assms have "0 < x" by simp
    then show ?thesis by (cases rule: fl_pos_cases) simp_all
  qed
  show "0 \<le> y" if "fl x = Fin y"
  proof (cases "x = 0")
    case True
    with that show ?thesis by (simp add: fl_def)
  next
    case False
    with assms have "0 < x" by simp
    then show ?thesis
    proof (cases rule: fl_pos_cases)
      case overflow
      with that show ?thesis by simp
    next
      case (finite e n)
      from finite(5) have "(0::rat) \<le> of_int n * 2 powi (e - 52)" by simp
      with finite(3) that show ?thesis by simp
    qed
  qed
qed

text \<open>The rounding error: half a unit in the last place.\<close>

lemma tiny64_pos: "0 \<le> tiny64"
  unfolding tiny64_def by (rule divide_nonneg_nonneg) (simp_all only: zero_le_one zero_le_power zero_le_numeral)

lemma tiny64_pow: "(2::rat) powi (- 1075) = tiny64"
  unfolding tiny64_def by (simp only: power_int_minus_divide power_int_numeral)

lemma pow2_half: "1 / 2 * (2::rat) powi (e - 52) = 2 powi (e - 53)"
proof -
  have "(2::rat) powi (e - 52) = 2 ^ 1 * 2 powi (e - 52 - int 1)" by (rule pow2_shift)
  also have "e - 52 - int 1 = e - 53" by simp
  finally show ?thesis by simp
qed

lemma pow2_eps: "(2::rat) powi e * eps64 = 2 powi (e - 53)"
proof -
  have "(2::rat) powi e = 2 ^ 53 * 2 powi (e - int 53)" by (rule pow2_shift)
  also have "e - int 53 = e - 53" by simp
  finally show ?thesis by (simp add: eps64_def)
qed

lemma fl_error_pos:
  assumes "0 < x" and "fl x = Fin y"
  shows "\<bar>y - x\<bar> \<le> x * eps64 + tiny64"
  using assms(1)
proof (cases rule: fl_pos_cases)
  case overflow
  with assms(2) show ?thesis by simp
next
  case (finite e n)
  let ?u = "(2::rat) powi (e - 52)"
  have u: "0 < ?u" by simp
  from finite(3) assms(2) have y: "y = of_int n * ?u" by simp
  have "\<bar>of_int n - x / ?u\<bar> \<le> 1 / 2" unfolding finite(2) by (rule roundEven_err)
  then have "\<bar>of_int n - x / ?u\<bar> * ?u \<le> 1 / 2 * ?u" using u by (intro mult_right_mono) simp_all
  moreover have "\<bar>of_int n - x / ?u\<bar> * ?u = \<bar>y - x\<bar>"
  proof -
    have "(of_int n - x / ?u) * ?u = y - x" using u by (simp add: y left_diff_distrib)
    then have "\<bar>y - x\<bar> = \<bar>(of_int n - x / ?u) * ?u\<bar>" by (simp only:)
    also have "\<dots> = \<bar>of_int n - x / ?u\<bar> * \<bar>?u\<bar>" by (rule abs_mult)
    also have "\<bar>?u\<bar> = ?u" using u by (simp only: abs_of_pos)
    finally show ?thesis by (rule sym)
  qed
  moreover have "1 / 2 * ?u = 2 powi (e - 53)" by (rule pow2_half)
  ultimately have err: "\<bar>y - x\<bar> \<le> 2 powi (e - 53)" by simp
  have "2 powi (e - 53) \<le> x * eps64 + tiny64"
  proof (cases "- 1022 \<le> expOf x")
    case True
    with finite(1) have ee: "e = expOf x" by simp
    from assms(1) have "x \<noteq> 0" by simp
    from expOf_bounds(1) [OF this] assms(1) have "2 powi e \<le> x" by (simp add: ee)
    then have "2 powi e * eps64 \<le> x * eps64" by (intro mult_right_mono) (simp_all add: eps64_def)
    moreover have "2 powi e * eps64 = (2::rat) powi (e - 53)" by (rule pow2_eps)
    ultimately have "(2::rat) powi (e - 53) \<le> x * eps64" by simp
    with tiny64_pos show ?thesis by (rule add_increasing2)
  next
    case False
    with finite(1) have "e = - 1022" by simp
    then have "e - 53 = - 1075" by simp
    then have "(2::rat) powi (e - 53) = 2 powi (- 1075)" by (simp only:)
    then have "(2::rat) powi (e - 53) \<le> tiny64" by (simp only: tiny64_pow order_refl)
    moreover have "0 \<le> x * eps64" using assms(1) by (simp add: eps64_def)
    ultimately show ?thesis by (intro add_increasing)
  qed
  with err show ?thesis by (rule order_trans)
qed

lemma fl_error:
  assumes "fl x = Fin y"
  shows "\<bar>y - x\<bar> \<le> \<bar>x\<bar> * eps64 + tiny64"
proof -
  consider "x = 0" | "0 < x" | "x < 0" by linarith
  then show ?thesis
  proof cases
    case 1
    with assms have "y = 0" by (simp add: fl_def)
    with 1 tiny64_pos show ?thesis by simp
  next
    case 2
    then have "\<bar>x\<bar> = x" by simp
    with fl_error_pos [OF 2 assms] show ?thesis by (simp only:)
  next
    case 3
    then have p: "0 < - x" by simp
    from 3 have a: "\<bar>x\<bar> = - x" by simp
    from assms have "fl (- x) = Fin (- y)" by (simp add: fl_minus)
    from fl_error_pos [OF p this] have "\<bar>- y - - x\<bar> \<le> - x * eps64 + tiny64" .
    moreover have "\<bar>- y - - x\<bar> = \<bar>y - x\<bar>" by (simp add: abs_minus_commute)
    ultimately show ?thesis by (simp only: a)
  qed
qed

text \<open>
  Evaluating \<open>fl\<close> at a positive number from its binade \<open>k\<close> and the nearest multiple
  \<open>n\<close> of the unit in the last place.
\<close>

lemma fl_eval:
  assumes "0 < x" and "2 powi k \<le> x" and "x < 2 powi (k + 1)"
    and "- 1022 \<le> k" and "k < 1023"
    and "\<bar>x / 2 powi (k - 52) - of_int n\<bar> < 1 / 2"
  shows "fl x = Fin (of_int n * 2 powi (k - 52))"
proof -
  from assms(1-3) have k: "expOf x = k" by (intro expOf_eqI) simp_all
  with assms(4) have e: "max (expOf x) (- 1022) = k" by simp
  from assms(6) have n: "roundEven (x / 2 powi (k - 52)) = n" by (rule roundEven_eqI)
  have "x / 2 powi (k - 52) < 2 ^ 53" using assms(1) by (rule scaled_less) (simp add: k)
  then have "x / 2 powi (k - 52) \<le> of_int (2 ^ 53)" by simp
  then have "roundEven (x / 2 powi (k - 52)) \<le> 2 ^ 53" by (rule roundEven_le)
  then have "n \<le> 2 ^ 53" by (simp only: n)
  then have "(of_int n :: rat) \<le> 2 ^ 53" by (metis of_int_le_iff of_int_numeral of_int_power)
  then have "of_int n * (2::rat) powi (k - 52) \<le> 2 ^ 53 * 2 powi (k - 52)"
    by (intro mult_right_mono) simp_all
  also have "\<dots> = 2 powi (k + 1)" using pow2_shift [of "k + 1" 53] by simp
  also have "\<dots> < 2 powi 1024" using assms(5) by (simp only: pow2_less_iff)
  also have "\<dots> = 2 ^ 1024" by simp
  finally have "\<not> 2 ^ 1024 \<le> of_int n * (2::rat) powi (k - 52)" by (simp only: not_le)
  then show ?thesis
    unfolding fl_pos [OF assms(1)] Let_def e n by (simp only: if_False)
qed


lemma fl_of_int:
  assumes "\<bar>m\<bar> < 2 ^ 53"
  shows "fl (of_int m) = Fin (of_int m)"
  using fl_exact [OF assms, of 0] by simp

lemma fl_numeral [simp]:
  "numeral w < (2 ^ 53 :: int) \<Longrightarrow> fl (numeral w) = Fin (numeral w)"
  "numeral w < (2 ^ 53 :: int) \<Longrightarrow> fl (- numeral w) = Fin (- numeral w)"
  "fl 0 = Fin 0" "fl 1 = Fin 1"
  using fl_of_int [of "numeral w"] fl_of_int [of "- numeral w"] fl_of_int [of 0] fl_of_int [of 1]
  by simp_all

section \<open>Arithmetic of the number model\<close>

lemma floor_half: "\<lfloor>(1 / 2 :: rat)\<rfloor> = 0"
  by (rule floor_unique) simp_all

lemma roundEven_tie: "even n \<Longrightarrow> roundEven (of_int n + 1 / 2) = n"
  by (simp add: roundEven_def Let_def floor_half)

lemma roundEven_tie_up: "odd n \<Longrightarrow> roundEven (of_int n + 1 / 2) = n + 1"
  by (simp add: roundEven_def Let_def floor_half)

lemma fl_eval_round:
  assumes "0 < x" and "2 powi k \<le> x" and "x < 2 powi (k + 1)"
    and "- 1022 \<le> k" and "k < 1023"
    and n: "roundEven (x / 2 powi (k - 52)) = n"
  shows "fl x = Fin (of_int n * 2 powi (k - 52))"
proof -
  from assms(1-3) have k: "expOf x = k" by (intro expOf_eqI) simp_all
  with assms(4) have e: "max (expOf x) (- 1022) = k" by simp
  have "x / 2 powi (k - 52) < 2 ^ 53" using assms(1) by (rule scaled_less) (simp add: k)
  then have "x / 2 powi (k - 52) \<le> of_int (2 ^ 53)" by simp
  then have "roundEven (x / 2 powi (k - 52)) \<le> 2 ^ 53" by (rule roundEven_le)
  then have "n \<le> 2 ^ 53" by (simp only: n)
  then have "(of_int n :: rat) \<le> 2 ^ 53" by (metis of_int_le_iff of_int_numeral of_int_power)
  then have "of_int n * (2::rat) powi (k - 52) \<le> 2 ^ 53 * 2 powi (k - 52)"
    by (intro mult_right_mono) simp_all
  also have "\<dots> = 2 powi (k + 1)" using pow2_shift [of "k + 1" 53] by simp
  also have "\<dots> < 2 powi 1024" using assms(5) by (simp only: pow2_less_iff)
  also have "\<dots> = 2 ^ 1024" by simp
  finally have "\<not> 2 ^ 1024 \<le> of_int n * (2::rat) powi (k - 52)" by (simp only: not_le)
  then show ?thesis
    unfolding fl_pos [OF assms(1)] Let_def e n by (simp only: if_False)
qed

lemma fl_eval_tie:
  assumes "0 < x" and "2 powi k \<le> x" and "x < 2 powi (k + 1)"
    and "- 1022 \<le> k" and "k < 1023"
    and "x / 2 powi (k - 52) = of_int n + 1 / 2" and "even n"
  shows "fl x = Fin (of_int n * 2 powi (k - 52))"
  using assms(1-5)
proof (rule fl_eval_round)
  show "roundEven (x / 2 powi (k - 52)) = n"
    unfolding assms(6) using assms(7) by (rule roundEven_tie)
qed

lemma representable_fl: "representable (fl x)"
proof (cases "fl x")
  case (Fin y)
  then have "fl y = Fin y" by (rule fl_idem)
  with Fin show ?thesis by (simp add: representable_def)
qed (simp_all add: representable_def)

lemma representable_asDouble: "representable (asDouble n)"
  by (cases n) (simp_all add: representable_fl, simp_all add: representable_def)

lemma representable_consts [simp]:
  "representable NaN" "representable PInf" "representable NInf" "representable (Fin 0)"
  by (simp_all add: representable_def fl_def)

lemma representable_FinD: "representable (Fin a) \<Longrightarrow> fl a = Fin a"
  by (simp add: representable_def)

lemma representable_add: "representable (js_add x y)"
  by (cases x; cases y) (simp_all add: representable_fl)

lemma representable_mul: "representable (js_mul x y)"
  by (cases x; cases y) (simp_all add: representable_fl signed_inf_def)

lemma representable_div: "representable (js_div x y)"
  by (cases x; cases y) (simp_all add: representable_fl signed_inf_def)

lemma js_add_zero_right: "representable x \<Longrightarrow> js_add x (Fin 0) = x"
  by (cases x) (simp_all add: representable_def)

lemma js_add_zero_left: "representable x \<Longrightarrow> js_add (Fin 0) x = x"
  by (cases x) (simp_all add: representable_def)

lemma representable_scanNumber:
  "scanNumber s = Some (n, rest) \<Longrightarrow> representable n"
  by (auto simp: scanNumber_def Let_def representable_fl split: prod.splits option.splits if_splits)

lemma representable_parseFloat: "representable (parseFloat v)"
proof (cases v)
  case (JString s)
  then show ?thesis
    by (auto simp: parseFloatString_def representable_scanNumber split: option.splits)
qed (simp_all add: representable_asDouble)

lemma safeNumber_not_NaN: "safeNumber v \<noteq> NaN"
  by (simp add: safeNumber_def isNaN_def Let_def)

lemma representable_safeNumber: "representable (safeNumber v)"
  using representable_parseFloat [of v] by (simp add: safeNumber_def isNaN_def Let_def)

section \<open>Equal split\<close>

lemma fl_finite_pos:
  assumes "0 < x" and "x \<le> (2 ^ 53 - 1) * 2 powi 971"
  shows "\<exists>y. fl x = Fin y"
proof -
  define e where "e = max (expOf x) (- 1022)"
  define n where "n = roundEven (x / 2 powi (e - 52))"
  have u: "(0::rat) < 2 powi (e - 52)" by simp
  have p971: "(0::rat) < 2 powi 971" by simp
  have top: "(2::rat) ^ 53 * 2 powi 971 = 2 powi 1024" using pow2_shift [of 1024 53] by simp
  have d: "(2::rat) powi 1024 = 2 ^ 1024" by simp
  have "(2 ^ 53 - 1) * 2 powi 971 < (2::rat) ^ 53 * 2 powi 971"
    using p971 by (intro mult_strict_right_mono) simp_all
  with assms(2) have xlt: "x < 2 powi 1024" by (simp only: top)
  from expOf_bounds [of x] assms(1) have "2 powi (expOf x) \<le> x" by simp
  from this xlt have "(2::rat) powi (expOf x) < 2 powi 1024" by (rule le_less_trans)
  then have ex: "expOf x < 1024" by (simp only: pow2_less_iff)
  then have e1: "e \<le> 1023" by (simp add: e_def)
  have "x / 2 powi (e - 52) < 2 ^ 53" using assms(1) by (rule scaled_less) (simp add: e_def)
  then have "x / 2 powi (e - 52) \<le> of_int (2 ^ 53)" by simp
  then have n1: "n \<le> 2 ^ 53" unfolding n_def by (rule roundEven_le)
  have small: "of_int n * (2::rat) powi (e - 52) < 2 powi 1024"
  proof (cases "e = 1023")
    case True
    then have e52: "e - 52 = 971" by simp
    from assms(2) p971 have "x / 2 powi 971 \<le> 2 ^ 53 - 1"
      by (simp add: pos_divide_le_eq)
    then have "x / 2 powi (e - 52) \<le> of_int (2 ^ 53 - 1)" by (simp add: e52)
    then have "n \<le> 2 ^ 53 - 1" unfolding n_def by (rule roundEven_le)
    then have "n < 2 ^ 53" by simp
    then have "(of_int n :: rat) < of_int (2 ^ 53)" by (simp only: of_int_less_iff)
    then have "(of_int n :: rat) < 2 ^ 53" by simp
    then have "of_int n * (2::rat) powi 971 < 2 ^ 53 * 2 powi 971"
      using p971 by (intro mult_strict_right_mono)
    then show ?thesis by (simp only: e52 top)
  next
    case False
    with e1 have e2: "e + 1 < 1024" by simp
    from n1 have "(of_int n :: rat) \<le> of_int (2 ^ 53)" by (simp only: of_int_le_iff)
    then have "(of_int n :: rat) \<le> 2 ^ 53" by simp
    then have "of_int n * (2::rat) powi (e - 52) \<le> 2 ^ 53 * 2 powi (e - 52)"
      by (intro mult_right_mono) simp_all
    also have "\<dots> = 2 powi (e + 1)" using pow2_shift [of "e + 1" 53] by simp
    also have "\<dots> < 2 powi 1024" using e2 by (simp only: pow2_less_iff)
    finally show ?thesis .
  qed
  then have "\<not> 2 ^ 1024 \<le> of_int n * (2::rat) powi (e - 52)" by (simp only: d not_le)
  then have "fl x = Fin (of_int n * 2 powi (e - 52))"
    unfolding fl_pos [OF assms(1)] Let_def e_def [symmetric] n_def [symmetric]
    by (simp only: if_False)
  then show ?thesis by blast
qed

lemma fl_finite:
  assumes "\<bar>x\<bar> \<le> (2 ^ 53 - 1) * 2 powi 971"
  shows "\<exists>y. fl x = Fin y"
proof -
  consider "x = 0" | "0 < x" | "x < 0" by linarith
  then show ?thesis
  proof cases
    case 1
    then show ?thesis by (simp add: fl_def)
  next
    case 2
    then have "\<bar>x\<bar> = x" by simp
    with assms have "x \<le> (2 ^ 53 - 1) * 2 powi 971" by (simp only:)
    with 2 show ?thesis by (rule fl_finite_pos)
  next
    case 3
    then have a: "\<bar>x\<bar> = - x" and p: "0 < - x" by simp_all
    from assms have "- x \<le> (2 ^ 53 - 1) * 2 powi 971" by (simp only: a)
    with p obtain y where "fl (- x) = Fin y" using fl_finite_pos by blast
    then have "js_neg (fl x) = Fin y" by (simp only: fl_minus)
    then show ?thesis by (cases "fl x") simp_all
  qed
qed

lemma representable_bound:
  assumes "representable (Fin a)"
  shows "\<bar>a\<bar> \<le> (2 ^ 53 - 1) * 2 powi 971"
proof -
  from assms have "fl a = Fin a" by (rule representable_FinD)
  then obtain m j where a: "a = of_int m * 2 powi j" and m: "\<bar>m\<bar> < 2 ^ 53" and j: "j \<le> 971"
    using fl_form by blast
  from m have "\<bar>m\<bar> \<le> 2 ^ 53 - 1" by simp
  then have "(of_int \<bar>m\<bar> :: rat) \<le> of_int (2 ^ 53 - 1)" by (simp only: of_int_le_iff)
  then have m2: "\<bar>of_int m :: rat\<bar> \<le> 2 ^ 53 - 1" by simp
  from j have j2: "(2::rat) powi j \<le> 2 powi 971" by (simp only: pow2_le_iff)
  have "\<bar>a\<bar> = \<bar>of_int m :: rat\<bar> * 2 powi j" by (simp add: a abs_mult)
  also have "\<dots> \<le> (2 ^ 53 - 1) * 2 powi 971"
    using m2 j2 by (intro mult_mono) simp_all
  finally show ?thesis .
qed

lemma fl_quotient_finite:
  assumes "representable (Fin a)" and "0 < n"
  shows "\<exists>y. fl (a / of_nat n) = Fin y"
proof (rule fl_finite)
  from assms(2) have "(1::rat) \<le> of_nat n" by simp
  then have "\<bar>a\<bar> / of_nat n \<le> \<bar>a\<bar> / 1"
    by (intro divide_left_mono) simp_all
  then have "\<bar>a / of_nat n\<bar> \<le> \<bar>a\<bar>" by simp
  also have "\<dots> \<le> (2 ^ 53 - 1) * 2 powi 971" using assms(1) by (rule representable_bound)
  finally show "\<bar>a / of_nat n\<bar> \<le> (2 ^ 53 - 1) * 2 powi 971" .
qed

lemma splitCount_eq:
  "splitCount bill = (if splitList bill = [] then 1 else length (splitList bill))"
  by (simp add: splitCount_def splitList_def split: option.splits)

lemma equal_share_value:
  assumes "splitType bill = Equal"
  shows "calculateUserShare bill p =
           js_div (safeNumber (amount bill)) (Fin (of_nat (splitCount bill)))"
proof -
  have "0 < splitCount bill"
    by (simp add: splitCount_def split: option.splits)
  then have "(of_nat (splitCount bill) :: rat) \<noteq> 0" by simp
  then show ?thesis using assms
    by (auto simp: calculateUserShare_def Let_def fl_def)
qed

lemma equal_share_rounded:
  assumes "splitType bill = Equal" and "safeNumber (amount bill) = Fin A"
    and "splitList bill \<noteq> []"
  shows "\<exists>s. calculateUserShare bill p = Fin s
             \<and> fl (A / of_nat (length (splitList bill))) = Fin s
             \<and> \<bar>of_nat (length (splitList bill)) * s - A\<bar>
                  \<le> \<bar>A\<bar> * eps64 + of_nat (length (splitList bill)) * tiny64"
proof -
  let ?n = "length (splitList bill)"
  from assms(3) have n: "0 < ?n" by simp
  then have n0: "(of_nat ?n :: rat) \<noteq> 0" and np: "(0::rat) < of_nat ?n" by simp_all
  have "representable (Fin A)" using representable_safeNumber [of "amount bill"]
    by (simp only: assms(2))
  then obtain s where s: "fl (A / of_nat ?n) = Fin s" using n fl_quotient_finite by blast
  have v: "calculateUserShare bill p = Fin s"
    using assms(3) n0 by (simp add: equal_share_value [OF assms(1)] assms(2) splitCount_eq s)
  from s have "\<bar>s - A / of_nat ?n\<bar> \<le> \<bar>A / of_nat ?n\<bar> * eps64 + tiny64" by (rule fl_error)
  then have "of_nat ?n * \<bar>s - A / of_nat ?n\<bar> \<le> of_nat ?n * (\<bar>A / of_nat ?n\<bar> * eps64 + tiny64)"
    using np by (intro mult_left_mono) simp_all
  moreover have "of_nat ?n * \<bar>s - A / of_nat ?n\<bar> = \<bar>of_nat ?n * s - A\<bar>"
  proof -
    have "of_nat ?n * \<bar>s - A / of_nat ?n\<bar> = \<bar>of_nat ?n * (s - A / of_nat ?n)\<bar>"
      by (simp add: abs_mult)
    also have "of_nat ?n * (s - A / of_nat ?n) = of_nat ?n * s - A"
      using n0 by (simp add: right_diff_distrib)
    finally show ?thesis .
  qed
  moreover have "of_nat ?n * (\<bar>A / of_nat ?n\<bar> * eps64 + tiny64) = \<bar>A\<bar> * eps64 + of_nat ?n * tiny64"
    using n0 by (simp add: distrib_left abs_divide)
  ultimately have "\<bar>of_nat ?n * s - A\<bar> \<le> \<bar>A\<bar> * eps64 + of_nat ?n * tiny64" by (simp only:)
  with v s show ?thesis by blast
qed

lemma sum_const_share:
  "(\<And>q. f q = Fin s) \<Longrightarrow> (\<Sum>q\<leftarrow>xs. ratOf (f q)) = of_nat (length xs) * s"
  by (induction xs) (simp_all add: distrib_right)

lemma fl_50_6: "fl (50 / 6) = Fin (4691249611844267 / 562949953421312)"
  using fl_eval [of "50 / 6" 3 4691249611844267] by simp

lemma shares_of_50_sum2:
  "fl (4691249611844267 / 562949953421312 + 4691249611844267 / 562949953421312)
     = Fin (4691249611844267 / 281474976710656)"
  using fl_exact [of 4691249611844267 "- 48"] by simp

lemma shares_of_50_sum3:
  "fl (4691249611844267 / 281474976710656 + 4691249611844267 / 562949953421312) = Fin 25"
  using fl_eval_tie [of "4691249611844267 / 281474976710656 + 4691249611844267 / 562949953421312"
      4 7036874417766400] by simp

lemma shares_of_50_sum4:
  "fl (25 + 4691249611844267 / 562949953421312) = Fin (4691249611844267 / 140737488355328)"
  using fl_eval [of "25 + 4691249611844267 / 562949953421312" 5 4691249611844267] by simp

lemma shares_of_50_sum5:
  "fl (4691249611844267 / 140737488355328 + 4691249611844267 / 562949953421312)
     = Fin (2932031007402667 / 70368744177664)"
  using fl_eval [of "4691249611844267 / 140737488355328 + 4691249611844267 / 562949953421312"
      5 5864062014805334] by simp

lemma shares_of_50_sum6:
  "fl (2932031007402667 / 70368744177664 + 4691249611844267 / 562949953421312)
     = Fin (7036874417766401 / 140737488355328)"
  using fl_eval [of "2932031007402667 / 70368744177664 + 4691249611844267 / 562949953421312"
      5 7036874417766401] by simp

lemma safeNumber_billA [simp]: "safeNumber (amount billA) = Fin 90"
  by (simp add: billA_def safeNumber_def isNaN_def)

lemma safeNumber_billZero [simp]: "safeNumber (amount billZero) = Fin 0"
  by (simp add: billZero_def billA_def safeNumber_def isNaN_def parseFloatString_def wsBytes_def
      scanNumber_def scanDecimal_def isDigit_def Let_def)

lemma safeNumber_billSix [simp]: "safeNumber (amount billSix) = Fin 50"
  by (simp add: billSix_def billA_def safeNumber_def isNaN_def)

lemma share_billSix:
  "calculateUserShare billSix p = Fin (4691249611844267 / 562949953421312)"
proof -
  have "js_div (Fin 50) (Fin 6) = Fin (4691249611844267 / 562949953421312)"
    using fl_50_6 by simp
  then show ?thesis
    by (simp add: calculateUserShare_def billSix_def billA_def splitCount_def
        safeNumber_def isNaN_def Let_def)
qed

text \<open>
  C1, as amended: with \<open>splitType = equal\<close> the share of every participant id is the
  coerced amount divided by the number of ids in \<open>splitAmong\<close>, with divisor 1 when
  \<open>splitAmong\<close> is empty or missing; it is exactly 0 when the amount coerces to 0; and
  for a finite amount \<open>A\<close> and \<open>n \<ge> 1\<close> participants every share is the binary64
  number nearest to \<open>A / n\<close>, and the shares, added up exactly over \<open>splitAmong\<close>,
  differ from \<open>A\<close> by at most \<open>|A| * 2^-53 + n * 2^-1075\<close>.
\<close>

theorem equal_split_share:
  assumes "splitType bill = Equal"
  shows "calculateUserShare bill p =
           js_div (safeNumber (amount bill))
             (Fin (of_nat (if splitList bill = [] then 1 else length (splitList bill))))
         \<and> (safeNumber (amount bill) = Fin 0 \<longrightarrow> calculateUserShare bill p = Fin 0)
         \<and> (\<forall>A. safeNumber (amount bill) = Fin A \<and> splitList bill \<noteq> [] \<longrightarrow>
              calculateUserShare bill p = fl (A / of_nat (length (splitList bill)))
              \<and> isFinite (calculateUserShare bill p)
              \<and> \<bar>(\<Sum>q\<leftarrow>splitList bill. ratOf (calculateUserShare bill q)) - A\<bar>
                   \<le> \<bar>A\<bar> * eps64 + of_nat (length (splitList bill)) * tiny64)"
proof (intro conjI allI impI)
  show "calculateUserShare bill p =
           js_div (safeNumber (amount bill))
             (Fin (of_nat (if splitList bill = [] then 1 else length (splitList bill))))"
    by (simp only: equal_share_value [OF assms] splitCount_eq)
next
  assume "safeNumber (amount bill) = Fin 0"
  then show "calculateUserShare bill p = Fin 0"
    using assms by (simp add: calculateUserShare_def)
next
  fix A
  assume h: "safeNumber (amount bill) = Fin A \<and> splitList bill \<noteq> []"
  then have a: "safeNumber (amount bill) = Fin A" and ne: "splitList bill \<noteq> []" by simp_all
  from equal_share_rounded [OF assms a ne, of p] obtain s
    where s: "calculateUserShare bill p = Fin s"
      "fl (A / of_nat (length (splitList bill))) = Fin s"
      "\<bar>of_nat (length (splitList bill)) * s - A\<bar>
         \<le> \<bar>A\<bar> * eps64 + of_nat (length (splitList bill)) * tiny64"
    by blast
  show "calculateUserShare bill p = fl (A / of_nat (length (splitList bill)))"
    by (simp only: s)
  show "isFinite (calculateUserShare bill p)" by (simp add: s)
  have "calculateUserShare bill q = Fin s" for q
    using equal_share_rounded [OF assms a ne, of q] s(2) by auto
  then have "(\<Sum>q\<leftarrow>splitList bill. ratOf (calculateUserShare bill q))
               = of_nat (length (splitList bill)) * s"
    by (rule sum_const_share)
  with s(3) show "\<bar>(\<Sum>q\<leftarrow>splitList bill. ratOf (calculateUserShare bill q)) - A\<bar>
                   \<le> \<bar>A\<bar> * eps64 + of_nat (length (splitList bill)) * tiny64"
    by (simp only:)
qed

theorem equal_split_share_witness:
  "calculateUserShare billA ''F1'' = Fin 30
   \<and> calculateUserShare billZero ''F1'' = Fin 0
   \<and> calculateUserShare billSix ''F1'' = fl (50 / 6)
   \<and> \<bar>(\<Sum>q\<leftarrow>splitList billSix. ratOf (calculateUserShare billSix q)) - 50\<bar>
        \<le> 50 * eps64 + 6 * tiny64"
proof -
  have eqA: "splitType billA = Equal" and eqZ: "splitType billZero = Equal"
    and eqS: "splitType billSix = Equal"
    by (simp_all add: billA_def billZero_def billSix_def)
  have lstA: "splitList billA \<noteq> []" "length (splitList billA) = 3"
    by (simp_all add: billA_def splitList_def)
  have lstS: "splitList billSix \<noteq> []" "length (splitList billSix) = 6"
    by (simp_all add: billSix_def billA_def splitList_def)
  from equal_split_share [OF eqA, of "''F1''"]
  have 1: "calculateUserShare billA ''F1'' = Fin 30" by (simp add: lstA)
  from equal_split_share [OF eqZ, of "''F1''"]
  have 2: "calculateUserShare billZero ''F1'' = Fin 0" by simp
  from equal_split_share [OF eqS, of "''F1''", THEN conjunct2, THEN conjunct2]
  have "\<forall>A. safeNumber (amount billSix) = Fin A \<and> splitList billSix \<noteq> [] \<longrightarrow>
              calculateUserShare billSix ''F1'' = fl (A / of_nat (length (splitList billSix)))
              \<and> isFinite (calculateUserShare billSix ''F1'')
              \<and> \<bar>(\<Sum>q\<leftarrow>splitList billSix. ratOf (calculateUserShare billSix q)) - A\<bar>
                   \<le> \<bar>A\<bar> * eps64 + of_nat (length (splitList billSix)) * tiny64" .
  then have "safeNumber (amount billSix) = Fin 50 \<and> splitList billSix \<noteq> [] \<longrightarrow>
              calculateUserShare billSix ''F1'' = fl (50 / of_nat (length (splitList billSix)))
              \<and> isFinite (calculateUserShare billSix ''F1'')
              \<and> \<bar>(\<Sum>q\<leftarrow>splitList billSix. ratOf (calculateUserShare billSix q)) - 50\<bar>
                   \<le> \<bar>50\<bar> * eps64 + of_nat (length (splitList billSix)) * tiny64"
    by (rule spec)
  then have 3: "calculateUserShare billSix ''F1'' = fl (50 / 6)
     \<and> \<bar>(\<Sum>q\<leftarrow>splitList billSix. ratOf (calculateUserShare billSix q)) - 50\<bar>
        \<le> 50 * eps64 + 6 * tiny64"
    by (simp add: lstS)
  from 1 2 3 show ?thesis by simp
qed

text \<open>
  C1 as the specification states it fails: an amount of 50 split equally among six gives
  every participant the binary64 number nearest to \<open>50 / 6\<close>, which is not \<open>50 / 6\<close>, and
  the six shares added up in the arithmetic of the code give \<open>50.00000000000001\<close>, not 50.
\<close>

theorem equal_split_sum_inexact:
  "splitType billSix = Equal
   \<and> safeNumber (amount billSix) = Fin 50
   \<and> length (splitList billSix) = 6
   \<and> calculateUserShare billSix ''F1'' = Fin (4691249611844267 / 562949953421312)
   \<and> calculateUserShare billSix ''F1'' \<noteq> Fin (50 / 6)
   \<and> foldl js_add (Fin 0) (map (calculateUserShare billSix) (splitList billSix))
       = Fin (7036874417766401 / 140737488355328)
   \<and> foldl js_add (Fin 0) (map (calculateUserShare billSix) (splitList billSix))
       \<noteq> safeNumber (amount billSix)"
proof -
  have l: "splitList billSix = [''U'', ''F1'', ''F2'', ''F3'', ''F4'', ''F5'']"
    by (simp add: billSix_def billA_def splitList_def)
  have r: "fl (4691249611844267 / 562949953421312) = Fin (4691249611844267 / 562949953421312)"
    using fl_50_6 by (rule fl_idem)
  have s: "foldl js_add (Fin 0) (map (calculateUserShare billSix) (splitList billSix))
       = Fin (7036874417766401 / 140737488355328)"
    unfolding l share_billSix
    by (simp only: list.map foldl_Cons foldl_Nil js_add.simps add_0 r shares_of_50_sum2
        shares_of_50_sum3 shares_of_50_sum4 shares_of_50_sum5 shares_of_50_sum6)
  show ?thesis
    by (simp add: s share_billSix) (simp add: billSix_def billA_def splitList_def)
qed

section \<open>Custom split\<close>

lemma fl_2_5: "fl (2 / 5) = Fin (3602879701896397 / 9007199254740992)"
  using fl_eval [of "2 / 5" "- 2" 7205759403792794] by simp

lemma fl_3_5: "fl (3 / 5) = Fin (5404319552844595 / 9007199254740992)"
  using fl_eval [of "3 / 5" "- 1" 5404319552844595] by simp

lemma fl_2_5_times_15: "fl (3602879701896397 / 9007199254740992 * 15) = Fin 6"
  using fl_eval [of "3602879701896397 / 9007199254740992 * 15" 2 6755399441055744] by simp

lemma fl_3_5_times_15: "fl (5404319552844595 / 9007199254740992 * 15) = Fin 9"
  using fl_eval [of "5404319552844595 / 9007199254740992 * 15" 3 5066549580791808] by simp

lemma representable_foldl_add:
  "representable acc \<Longrightarrow> representable (foldl (\<lambda>a b. js_add a (safeNumber b)) acc vs)"
  by (induction vs arbitrary: acc) (simp_all add: representable_add)

lemma representable_itemizedSum: "representable (itemizedSum m)"
  by (simp add: itemizedSum_def representable_foldl_add)

lemma safeNumber_zero [simp]: "safeNumber (JNumber (Fin 0)) = Fin 0"
  by (simp add: safeNumber_def isNaN_def fl_def)

lemma itemizedSum_snoc_zero: "itemizedSum (m @ [(p, JNumber (Fin 0))]) = itemizedSum m"
proof -
  have "itemizedSum (m @ [(p, JNumber (Fin 0))]) = js_add (itemizedSum m) (Fin 0)"
    by (simp add: itemizedSum_def)
  also have "\<dots> = itemizedSum m"
    using representable_itemizedSum by (rule js_add_zero_right)
  finally show ?thesis .
qed

lemma safeNumber_missing:
  "map_of m p = None \<Longrightarrow> safeNumber (lookupVal m p) = Fin 0"
  by (simp add: lookupVal_def safeNumber_def isNaN_def)

lemma custom_share_value:
  assumes "splitType bill = Custom"
  shows "calculateUserShare bill p =
     (let itemizedTotal = itemizedSum (itemizedOf bill);
          userItemAmount = safeNumber (lookupVal (itemizedOf bill) p);
          taxAmount = js_div (js_mul itemizedTotal (safeNumber (taxPercentage bill))) (Fin 100);
          tipsAmount = js_div (js_mul itemizedTotal (safeNumber (tipsPercentage bill))) (Fin 100)
      in if itemizedTotal = Fin 0 then userItemAmount
         else js_add userItemAmount
                (js_mul (js_div userItemAmount itemizedTotal) (js_add taxAmount tipsAmount)))"
  using assms by (simp add: calculateUserShare_def Let_def)

lemma itemizedSum_billB: "itemizedSum (itemizedOf billB) = Fin 100"
  by (simp add: billB_def itemizedOf_def itemizedSum_def safeNumber_def isNaN_def)

lemma overheads_billB:
  "js_add (js_div (js_mul (Fin 100) (safeNumber (taxPercentage billB))) (Fin 100))
          (js_div (js_mul (Fin 100) (safeNumber (tipsPercentage billB))) (Fin 100)) = Fin 15"
  by (simp add: billB_def safeNumber_def isNaN_def)

lemma share_billB_P: "calculateUserShare billB ''P'' = Fin 46"
proof -
  have c: "splitType billB = Custom" by (simp add: billB_def)
  have u: "safeNumber (lookupVal (itemizedOf billB) ''P'') = Fin 40"
    by (simp add: billB_def itemizedOf_def lookupVal_def safeNumber_def isNaN_def)
  have q: "js_div (Fin 40) (Fin 100) = Fin (3602879701896397 / 9007199254740992)"
    using fl_2_5 by simp
  have m: "js_mul (Fin (3602879701896397 / 9007199254740992)) (Fin 15) = Fin 6"
    using fl_2_5_times_15 by simp
  show ?thesis
    unfolding custom_share_value [OF c] Let_def itemizedSum_billB overheads_billB u q m
    by simp
qed

lemma share_billB_Q: "calculateUserShare billB ''Q'' = Fin 69"
proof -
  have c: "splitType billB = Custom" by (simp add: billB_def)
  have u: "safeNumber (lookupVal (itemizedOf billB) ''Q'') = Fin 60"
    by (simp add: billB_def itemizedOf_def lookupVal_def safeNumber_def isNaN_def)
  have q: "js_div (Fin 60) (Fin 100) = Fin (5404319552844595 / 9007199254740992)"
    using fl_3_5 by simp
  have m: "js_mul (Fin (5404319552844595 / 9007199254740992)) (Fin 15) = Fin 9"
    using fl_3_5_times_15 by simp
  show ?thesis
    unfolding custom_share_value [OF c] Let_def itemizedSum_billB overheads_billB u q m
    by simp
qed

text \<open>
  C2: with \<open>splitType = custom\<close> the share of \<open>p\<close> is the item amount of \<open>p\<close> plus
  that amount's fraction of the itemized total times tax plus tips, where the itemized
  total is the sum of the coerced item amounts and tax and tips are the given
  percentages of it; when the itemized total is 0 the share is the item amount alone;
  an id without an entry has the item amount 0 and the share it would have with an entry
  of 0.
\<close>

theorem custom_split_share:
  assumes "splitType bill = Custom"
  shows "calculateUserShare bill p =
     (let itemizedTotal =
            foldl (\<lambda>a v. js_add a (safeNumber v)) (Fin 0) (map snd (itemizedOf bill));
          userItemAmount = safeNumber (lookupVal (itemizedOf bill) p);
          taxAmount = js_div (js_mul itemizedTotal (safeNumber (taxPercentage bill))) (Fin 100);
          tipsAmount = js_div (js_mul itemizedTotal (safeNumber (tipsPercentage bill))) (Fin 100)
      in if itemizedTotal = Fin 0 then userItemAmount
         else js_add userItemAmount
                (js_mul (js_div userItemAmount itemizedTotal) (js_add taxAmount tipsAmount)))
    \<and> (foldl (\<lambda>a v. js_add a (safeNumber v)) (Fin 0) (map snd (itemizedOf bill)) = Fin 0 \<longrightarrow>
          calculateUserShare bill p = safeNumber (lookupVal (itemizedOf bill) p))
    \<and> (map_of (itemizedOf bill) p = None \<longrightarrow>
          safeNumber (lookupVal (itemizedOf bill) p) = Fin 0
          \<and> calculateUserShare
               (bill\<lparr>itemizedAmounts := Some (itemizedOf bill @ [(p, JNumber (Fin 0))])\<rparr>) p
             = calculateUserShare bill p)"
proof (intro conjI impI)
  show "calculateUserShare bill p =
     (let itemizedTotal =
            foldl (\<lambda>a v. js_add a (safeNumber v)) (Fin 0) (map snd (itemizedOf bill));
          userItemAmount = safeNumber (lookupVal (itemizedOf bill) p);
          taxAmount = js_div (js_mul itemizedTotal (safeNumber (taxPercentage bill))) (Fin 100);
          tipsAmount = js_div (js_mul itemizedTotal (safeNumber (tipsPercentage bill))) (Fin 100)
      in if itemizedTotal = Fin 0 then userItemAmount
         else js_add userItemAmount
                (js_mul (js_div userItemAmount itemizedTotal) (js_add taxAmount tipsAmount)))"
    using custom_share_value [OF assms, of p] by (simp only: itemizedSum_def)
next
  assume "foldl (\<lambda>a v. js_add a (safeNumber v)) (Fin 0) (map snd (itemizedOf bill)) = Fin 0"
  then have "itemizedSum (itemizedOf bill) = Fin 0" by (simp only: itemizedSum_def)
  then show "calculateUserShare bill p = safeNumber (lookupVal (itemizedOf bill) p)"
    by (simp add: custom_share_value [OF assms])
next
  assume "map_of (itemizedOf bill) p = None"
  then show "safeNumber (lookupVal (itemizedOf bill) p) = Fin 0"
    by (rule safeNumber_missing)
next
  assume none: "map_of (itemizedOf bill) p = None"
  let ?b = "bill\<lparr>itemizedAmounts := Some (itemizedOf bill @ [(p, JNumber (Fin 0))])\<rparr>"
  have m: "itemizedOf ?b = itemizedOf bill @ [(p, JNumber (Fin 0))]"
    by (simp add: itemizedOf_def)
  have "safeNumber (lookupVal (itemizedOf ?b) p) = Fin 0"
    using none by (simp add: m lookupVal_def map_add_def)
  then have u: "safeNumber (lookupVal (itemizedOf ?b) p)
                  = safeNumber (lookupVal (itemizedOf bill) p)"
    using none by (simp only: safeNumber_missing)
  have t: "itemizedSum (itemizedOf ?b) = itemizedSum (itemizedOf bill)"
    by (simp only: m itemizedSum_snoc_zero)
  have "splitType ?b = Custom" using assms by simp
  then show "calculateUserShare ?b p = calculateUserShare bill p"
    using assms by (simp add: custom_share_value u t del: Bill.simps)
qed

theorem custom_split_share_witness:
  "calculateUserShare billB ''P'' = Fin 46
   \<and> calculateUserShare billB ''R'' = Fin 0
   \<and> calculateUserShare billCancel ''P'' = Fin 40"
proof -
  have c: "splitType billB = Custom" and c2: "splitType billCancel = Custom"
    by (simp_all add: billB_def billCancel_def)
  have n: "map_of (itemizedOf billB) ''R'' = None"
    by (simp add: billB_def itemizedOf_def)
  have z: "foldl (\<lambda>a v. js_add a (safeNumber v)) (Fin 0) (map snd (itemizedOf billCancel)) = Fin 0"
    by (simp add: billCancel_def billB_def itemizedOf_def safeNumber_def isNaN_def)
  have u: "safeNumber (lookupVal (itemizedOf billCancel) ''P'') = Fin 40"
    by (simp add: billCancel_def billB_def itemizedOf_def lookupVal_def safeNumber_def isNaN_def)
  have uP: "safeNumber (lookupVal (itemizedOf billB) ''P'') = Fin 40"
    by (simp add: billB_def itemizedOf_def lookupVal_def safeNumber_def isNaN_def)
  have t: "foldl (\<lambda>a v. js_add a (safeNumber v)) (Fin 0) (map snd (itemizedOf billB)) = Fin 100"
    using itemizedSum_billB by (simp only: itemizedSum_def)
  have q: "js_div (Fin 40) (Fin 100) = Fin (3602879701896397 / 9007199254740992)"
    using fl_2_5 by simp
  have m: "js_mul (Fin (3602879701896397 / 9007199254740992)) (Fin 15) = Fin 6"
    using fl_2_5_times_15 by simp
  from custom_split_share [OF c, of "''P''", THEN conjunct1]
  have 1: "calculateUserShare billB ''P'' = Fin 46"
    unfolding Let_def t overheads_billB uP q m by simp
  from custom_split_share [OF c, of "''R''", THEN conjunct2, THEN conjunct2] n
  have uR: "safeNumber (lookupVal (itemizedOf billB) ''R'') = Fin 0"
    by (simp only: simp_thms)
  from custom_split_share [OF c, of "''R''", THEN conjunct1]
  have 2: "calculateUserShare billB ''R'' = Fin 0"
    unfolding Let_def t overheads_billB uR by (simp add: fl_def)
  from custom_split_share [OF c2, of "''P''", THEN conjunct2, THEN conjunct1] z
  have 3: "calculateUserShare billCancel ''P'' = Fin 40"
    by (simp only: u simp_thms)
  from 1 2 3 show ?thesis by (intro conjI)
qed

section \<open>Completion\<close>

lemma markedPaid_iff: "markedPaid bill p \<longleftrightarrow> (\<exists>m. paidStatus bill = Some m \<and> m p = Some True)"
  by (auto simp: markedPaid_def split: option.splits)

lemma statusOf_markedPaid:
  "\<not> inheritedKey p \<Longrightarrow> statusOf (paidStatus bill) p = markedPaid bill p"
  by (auto simp: statusOf_def markedPaid_def split: option.splits)

lemma markedPaid_statusOf: "markedPaid bill p \<Longrightarrow> statusOf (paidStatus bill) p"
  by (auto simp: statusOf_def markedPaid_def split: option.splits)

lemma isBillCompleted_all:
  "isBillCompleted bill \<longleftrightarrow>
     (\<forall>p\<in>set (splitList bill). p \<noteq> paidBy bill \<longrightarrow> statusOf (paidStatus bill) p)"
proof -
  have "isBillCompleted bill =
          list_all (statusOf (paidStatus bill)) (filter (\<lambda>pid. pid \<noteq> paidBy bill) (splitList bill))"
    by (simp add: isBillCompleted_def Let_def)
  then show ?thesis by (auto simp: list_all_iff)
qed

text \<open>
  Without a condition on the ids: an id that is an inherited name and has no entry in
  \<open>paidStatus\<close> reads as paid as soon as the bill has a \<open>paidStatus\<close> dictionary.
\<close>

lemma isBillCompleted_exact:
  "isBillCompleted bill \<longleftrightarrow>
     (\<forall>p\<in>set (splitList bill). p \<noteq> paidBy bill \<longrightarrow>
        (\<exists>m. paidStatus bill = Some m
              \<and> (m p = Some True \<or> m p = None \<and> inheritedKey p)))"
  unfolding isBillCompleted_all
  by (rule ball_cong [OF refl]) (auto simp: statusOf_def split: option.splits)

lemma completed_inherited_id:
  "isBillCompleted billProto \<and> \<not> markedPaid billProto ''constructor''"
  by (simp add: isBillCompleted_def billProto_def billA_def splitList_def statusOf_def
      markedPaid_def inheritedKey_def objectPrototypeKeys_def)

text \<open>
  C3: for a bill whose participant ids are not names that every object inherits (such as
  \<open>constructor\<close>), the bill is completed exactly when every id of \<open>splitAmong\<close> other
  than the payer has the paid status \<open>true\<close> (a missing dictionary or entry is not
  \<open>true\<close>). For every bill, it is completed when \<open>splitAmong\<close> holds no id but the
  payer; the pending status plays no part; and the dashboard's copy of the function gives
  the same answer.
\<close>

theorem bill_completed_iff:
  assumes "\<forall>p\<in>set (splitList bill). \<not> inheritedKey p"
  shows "(isBillCompleted bill \<longleftrightarrow>
      (\<forall>p\<in>set (splitList bill). p \<noteq> paidBy bill \<longrightarrow>
         (\<exists>m. paidStatus bill = Some m \<and> m p = Some True)))
   \<and> ((\<forall>p\<in>set (splitList bill). p = paidBy bill) \<longrightarrow> isBillCompleted bill)
   \<and> isBillCompleted (bill\<lparr>pendingStatus := ps\<rparr>) = isBillCompleted bill
   \<and> isBillCompleted_Dashboard bill = isBillCompleted bill"
proof (intro conjI impI)
  have "(\<forall>p\<in>set (splitList bill). p \<noteq> paidBy bill \<longrightarrow> statusOf (paidStatus bill) p)
      \<longleftrightarrow> (\<forall>p\<in>set (splitList bill). p \<noteq> paidBy bill \<longrightarrow> markedPaid bill p)"
    using assms by (intro ball_cong [OF refl]) (simp add: statusOf_markedPaid)
  then show "isBillCompleted bill \<longleftrightarrow>
      (\<forall>p\<in>set (splitList bill). p \<noteq> paidBy bill \<longrightarrow>
         (\<exists>m. paidStatus bill = Some m \<and> m p = Some True))"
    by (simp only: isBillCompleted_all markedPaid_iff)
next
  assume "\<forall>p\<in>set (splitList bill). p = paidBy bill"
  then show "isBillCompleted bill" by (simp add: isBillCompleted_all)
next
  show "isBillCompleted (bill\<lparr>pendingStatus := ps\<rparr>) = isBillCompleted bill"
    by (simp add: isBillCompleted_def splitList_def)
next
  show "isBillCompleted_Dashboard bill = isBillCompleted bill"
    by (simp add: isBillCompleted_Dashboard_def isBillCompleted_def)
qed

theorem bill_completed_iff_witness:
  "isBillCompleted billDone \<and> \<not> isBillCompleted billA \<and> \<not> isBillCompleted billHalfPaid"
proof -
  have l: "splitList billDone = [''U'', ''F1'', ''F2'']" "splitList billA = [''U'', ''F1'', ''F2'']"
    "splitList billHalfPaid = [''U'', ''F1'', ''F2'']"
    by (simp_all add: billDone_def billA_def billHalfPaid_def splitList_def)
  have k: "\<forall>p\<in>set (splitList billDone). \<not> inheritedKey p"
    "\<forall>p\<in>set (splitList billA). \<not> inheritedKey p"
    "\<forall>p\<in>set (splitList billHalfPaid). \<not> inheritedKey p"
    unfolding l by (simp_all add: inheritedKey_def objectPrototypeKeys_def)
  have d: "\<forall>p\<in>set (splitList billDone). p \<noteq> paidBy billDone \<longrightarrow>
         (\<exists>m. paidStatus billDone = Some m \<and> m p = Some True)"
    unfolding l by (simp add: billDone_def billA_def)
  have a: "\<not> (\<forall>p\<in>set (splitList billA). p \<noteq> paidBy billA \<longrightarrow>
         (\<exists>m. paidStatus billA = Some m \<and> m p = Some True))"
    unfolding l by (simp add: billA_def)
  have h: "\<not> (\<forall>p\<in>set (splitList billHalfPaid). p \<noteq> paidBy billHalfPaid \<longrightarrow>
         (\<exists>m. paidStatus billHalfPaid = Some m \<and> m p = Some True))"
    unfolding l by (simp add: billHalfPaid_def billA_def)
  from bill_completed_iff [OF k(1), of None] have i1:
    "isBillCompleted billDone \<longleftrightarrow> (\<forall>p\<in>set (splitList billDone). p \<noteq> paidBy billDone \<longrightarrow>
         (\<exists>m. paidStatus billDone = Some m \<and> m p = Some True))"
    by (rule conjunct1)
  from i1 d have 1: "isBillCompleted billDone" by (rule iffD2)
  from bill_completed_iff [OF k(2), of None] have i2:
    "isBillCompleted billA \<longleftrightarrow> (\<forall>p\<in>set (splitList billA). p \<noteq> paidBy billA \<longrightarrow>
         (\<exists>m. paidStatus billA = Some m \<and> m p = Some True))"
    by (rule conjunct1)
  from i2 a have 2: "\<not> isBillCompleted billA" by (simp only: simp_thms)
  from bill_completed_iff [OF k(3), of None] have i3:
    "isBillCompleted billHalfPaid \<longleftrightarrow>
       (\<forall>p\<in>set (splitList billHalfPaid). p \<noteq> paidBy billHalfPaid \<longrightarrow>
         (\<exists>m. paidStatus billHalfPaid = Some m \<and> m p = Some True))"
    by (rule conjunct1)
  from i3 h have 3: "\<not> isBillCompleted billHalfPaid" by (simp only: simp_thms)
  from 1 2 3 show ?thesis by (intro conjI)
qed

section \<open>Balances: bills the user paid\<close>

lemma addOwes_other:
  "p \<noteq> x \<Longrightarrow> addOwes friends u bill bm x p = bm p"
  by (simp add: addOwes_def Let_def)

lemma addOwes_skip:
  "x = u \<or> statusOf (paidStatus bill) x \<Longrightarrow> addOwes friends u bill bm x = bm"
  by (auto simp: addOwes_def)

lemma addOwes_hit:
  "x \<noteq> u \<Longrightarrow> \<not> statusOf (paidStatus bill) x \<Longrightarrow> \<not> inheritedKey x \<Longrightarrow>
   addOwes friends u bill bm x x =
     Some ((case bm x of None \<Rightarrow> newBalance x (getFriendName friends x) | Some e \<Rightarrow> e)
            \<lparr>owes := js_add (owes (case bm x of None \<Rightarrow> newBalance x (getFriendName friends x)
                                    | Some e \<Rightarrow> e))
                        (calculateUserShare bill x)\<rparr>)"
  by (simp add: addOwes_def Let_def)

lemma fold_addOwes_absent:
  "p \<notin> set xs \<Longrightarrow> foldl (addOwes friends u bill) bm xs p = bm p"
  by (induction xs arbitrary: bm) (simp_all add: addOwes_other)

lemma fold_addOwes_skip:
  "p = u \<or> statusOf (paidStatus bill) p \<Longrightarrow> foldl (addOwes friends u bill) bm xs p = bm p"
proof (induction xs arbitrary: bm)
  case Nil
  then show ?case by simp
next
  case (Cons x xs)
  have "addOwes friends u bill bm x p = bm p"
  proof (cases "p = x")
    case True
    with Cons.prems show ?thesis by (simp add: addOwes_skip)
  next
    case False
    then show ?thesis by (rule addOwes_other)
  qed
  with Cons show ?case by simp
qed

lemma fold_addOwes_hit:
  assumes "distinct xs" and "p \<in> set xs" and "p \<noteq> u" and "\<not> statusOf (paidStatus bill) p"
    and "\<not> inheritedKey p"
  shows "foldl (addOwes friends u bill) bm xs p =
     Some ((case bm p of None \<Rightarrow> newBalance p (getFriendName friends p) | Some e \<Rightarrow> e)
            \<lparr>owes := js_add (owes (case bm p of None \<Rightarrow> newBalance p (getFriendName friends p)
                                    | Some e \<Rightarrow> e))
                        (calculateUserShare bill p)\<rparr>)"
  using assms
proof (induction xs arbitrary: bm)
  case Nil
  then show ?case by simp
next
  case (Cons x xs)
  show ?case
  proof (cases "p = x")
    case True
    from Cons.prems True have nx: "x \<notin> set xs" "x \<noteq> u" "\<not> statusOf (paidStatus bill) x"
      "\<not> inheritedKey x"
      by simp_all
    have "foldl (addOwes friends u bill) (addOwes friends u bill bm x) xs x
                 = addOwes friends u bill bm x x"
      by (rule fold_addOwes_absent [OF nx(1)])
    also note addOwes_hit [OF nx(2,3,4)]
    finally show ?thesis unfolding True by simp
  next
    case False
    with Cons.prems have "distinct xs" "p \<in> set xs" by simp_all
    from Cons.IH [OF this Cons.prems(3,4,5), of "addOwes friends u bill bm x"] False
    show ?thesis by (simp add: addOwes_other)
  qed
qed

text \<open>
  The balances of a list of bills followed by one more bill are those of processing the
  last bill on the balances accumulated from the list.
\<close>

lemma useBalances_step:
  "u \<noteq> [] \<Longrightarrow>
   useBalances (bills @ [bill]) friends (Some u) k =
     map_option setNet
       (processBill friends u (foldl (processBill friends u) Map.empty bills) bill k)"
  by (simp add: useBalances_def)

lemma processBill_user_paid:
  assumes "\<not> isBillCompleted bill" and "paidBy bill = userId"
    and "splitAmong bill = Some people" and "userId \<in> set people"
  shows "processBill friends userId balanceMap bill
           = foldl (addOwes friends userId bill) balanceMap people"
  using assms by (simp add: processBill_def splitList_def Let_def)

lemma not_inherited [simp]:
  "\<not> inheritedKey ''U''" "\<not> inheritedKey ''F''" "\<not> inheritedKey ''G''"
  "\<not> inheritedKey ''F1''" "\<not> inheritedKey ''F2''"
  by (simp_all add: inheritedKey_def objectPrototypeKeys_def)

text \<open>
  C4: processing a bill that is not completed, was paid by the user and has the user in
  \<open>splitAmong\<close> (a list of distinct ids) adds the share of \<open>p\<close> to the \<open>owes\<close> of the
  entry of every other participant \<open>p\<close> whose \<open>paidStatus[p]\<close> is not true, creating the
  entry if need be, and leaves the entry of everyone else, in particular of every
  participant whose \<open>paidStatus[p]\<close> is true, as it was. Here \<open>p\<close> is an id that is not
  a name every object inherits. For the bill of 90 split equally among \<open>U\<close>, \<open>F1\<close> and
  \<open>F2\<close> the entry of \<open>F1\<close> gets \<open>owes = 30\<close>.
\<close>

theorem user_paid_bill_owes:
  assumes "\<not> isBillCompleted bill" and "paidBy bill = userId"
    and "splitAmong bill = Some people" and "userId \<in> set people" and "distinct people"
    and "\<not> inheritedKey p"
  shows "(p \<in> set people \<and> p \<noteq> userId \<and> \<not> markedPaid bill p \<longrightarrow>
            processBill friends userId balanceMap bill p =
              Some ((case balanceMap p of
                       None \<Rightarrow> newBalance p (getFriendName friends p) | Some e \<Rightarrow> e)
                    \<lparr>owes := js_add
                       (owes (case balanceMap p of
                                None \<Rightarrow> newBalance p (getFriendName friends p) | Some e \<Rightarrow> e))
                       (calculateUserShare bill p)\<rparr>))
       \<and> (markedPaid bill p \<or> p = userId \<or> p \<notin> set people \<longrightarrow>
            processBill friends userId balanceMap bill p = balanceMap p)"
proof -
  note pb = processBill_user_paid [OF assms(1-4)]
  note st = statusOf_markedPaid [OF assms(6), of bill]
  show ?thesis
    using fold_addOwes_hit [OF assms(5), of p userId bill friends balanceMap]
      fold_addOwes_skip [of p userId bill friends balanceMap people]
      fold_addOwes_absent [of p people friends userId bill balanceMap]
      assms(6)
    by (auto simp only: pb st)
qed

theorem user_paid_bill_owes_witness:
  "map_option owes (useBalances [billHalfPaid] [] (Some ''U'') ''F1'') = Some (Fin 30)
   \<and> useBalances [billHalfPaid] [] (Some ''U'') ''F2'' = None
   \<and> useBalances [billHalfPaid] [] (Some ''U'') ''U'' = None"
proof -
  have nc: "\<not> isBillCompleted billHalfPaid"
    by (simp add: isBillCompleted_def billHalfPaid_def billA_def splitList_def statusOf_def)
  have pb: "paidBy billHalfPaid = ''U''"
    and sa: "splitAmong billHalfPaid = Some [''U'', ''F1'', ''F2'']"
    by (simp_all add: billHalfPaid_def billA_def)
  have u: "''U'' \<in> set [''U'', ''F1'', ''F2'']" and d: "distinct [''U'', ''F1'', ''F2'']"
    by simp_all
  have k: "\<not> inheritedKey ''F1''" "\<not> inheritedKey ''F2''" "\<not> inheritedKey ''U''"
    by simp_all
  have st: "\<not> markedPaid billHalfPaid ''F1''" "markedPaid billHalfPaid ''F2''"
    by (simp_all add: billHalfPaid_def billA_def markedPaid_def)
  have sh: "calculateUserShare billHalfPaid ''F1'' = Fin 30"
    by (simp add: calculateUserShare_def billHalfPaid_def billA_def safeNumber_def isNaN_def
        splitCount_def)
  from user_paid_bill_owes [OF nc pb sa u d k(1), of "[]" Map.empty] st(1)
  have 1: "processBill [] ''U'' Map.empty billHalfPaid ''F1'' =
             Some ((newBalance ''F1'' (getFriendName [] ''F1''))\<lparr>owes := Fin 30\<rparr>)"
    by (simp add: sh newBalance_def)
  from user_paid_bill_owes [OF nc pb sa u d k(2), of "[]" Map.empty] st(2)
  have 2: "processBill [] ''U'' Map.empty billHalfPaid ''F2'' = None"
    by simp
  from user_paid_bill_owes [OF nc pb sa u d k(3), of "[]" Map.empty]
  have 3: "processBill [] ''U'' Map.empty billHalfPaid ''U'' = None"
    by simp
  from 1 2 3 show ?thesis
    by (simp add: useBalances_def setNet_def)
qed

text \<open>
  A participant whose id is an inherited name gets no entry, although it is a
  participant other than the user and recorded as not paid.
\<close>

lemma inherited_id_gets_no_entry:
  "\<not> isBillCompleted billProtoUnpaid
   \<and> \<not> markedPaid billProtoUnpaid ''constructor''
   \<and> useBalances [billProtoUnpaid] [] (Some ''U'') ''constructor'' = None"
  by (simp add: billProtoUnpaid_def billA_def isBillCompleted_def splitList_def statusOf_def
      markedPaid_def useBalances_def processBill_def addOwes_def inheritedKey_def
      objectPrototypeKeys_def Let_def)

section \<open>Balances: bills a friend paid\<close>

lemma processBill_friend_paid:
  assumes "\<not> isBillCompleted bill" and "paidBy bill \<noteq> userId"
    and "splitAmong bill = Some people" and "userId \<in> set people"
    and "\<not> inheritedKey (paidBy bill)"
  shows "processBill friends userId balanceMap bill =
     balanceMap(paidBy bill \<mapsto>
       (let entry = (case balanceMap (paidBy bill) of
                       None \<Rightarrow> newBalance (paidBy bill)
                                 (case paidByName bill of None \<Rightarrow> ''Unknown''
                                  | Some nm \<Rightarrow> if nm = [] then ''Unknown'' else nm)
                     | Some e \<Rightarrow> e)
        in if statusOf (paidStatus bill) userId then entry
           else entry\<lparr>owed := js_add (owed entry) (calculateUserShare bill userId)\<rparr>))"
  using assms by (simp add: processBill_def Let_def)

lemma share_ignores_pending:
  "calculateUserShare (bill\<lparr>pendingStatus := ps\<rparr>) p = calculateUserShare bill p"
  by (simp add: calculateUserShare_def splitCount_def itemizedOf_def Let_def)

lemma completed_ignores_pending:
  "isBillCompleted (bill\<lparr>pendingStatus := ps\<rparr>) = isBillCompleted bill"
  by (simp add: isBillCompleted_def splitList_def Let_def)

lemma addOwes_ignores_pending:
  "addOwes friends u (bill\<lparr>pendingStatus := ps\<rparr>) = addOwes friends u bill"
  by (intro ext) (simp add: addOwes_def share_ignores_pending Let_def)

lemma processBill_ignores_pending:
  "processBill friends u bm (bill\<lparr>pendingStatus := ps\<rparr>) = processBill friends u bm bill"
  by (simp add: processBill_def completed_ignores_pending share_ignores_pending
      addOwes_ignores_pending splitList_def Let_def cong: option.case_cong)

lemma useBalances_net:
  "useBalances bills friends uid k = Some b \<Longrightarrow> netBalance b = js_sub (owes b) (owed b)"
  by (auto simp: useBalances_def setNet_def Let_def split: option.splits if_splits)

text \<open>
  C5: processing a bill that is not completed, was paid by someone else and has the user
  in \<open>splitAmong\<close> makes sure the payer has an entry and adds the user's share to its
  \<open>owed\<close> exactly when \<open>paidStatus[userId]\<close> is not true; the pending status changes
  nothing in the processing of any bill; and every entry of the returned balances has
  \<open>netBalance = owes - owed\<close>. Here the ids of the user and of the payer are not names
  every object inherits.
\<close>

theorem friend_paid_bill_owed:
  assumes "\<not> isBillCompleted bill" and "paidBy bill \<noteq> userId"
    and "splitAmong bill = Some people" and "userId \<in> set people"
    and "\<not> inheritedKey userId" and "\<not> inheritedKey (paidBy bill)"
  shows "processBill friends userId balanceMap bill =
     balanceMap(paidBy bill \<mapsto>
       (let entry = (case balanceMap (paidBy bill) of
                       None \<Rightarrow> newBalance (paidBy bill)
                                 (case paidByName bill of None \<Rightarrow> ''Unknown''
                                  | Some nm \<Rightarrow> if nm = [] then ''Unknown'' else nm)
                     | Some e \<Rightarrow> e)
        in if markedPaid bill userId then entry
           else entry\<lparr>owed := js_add (owed entry) (calculateUserShare bill userId)\<rparr>))
   \<and> processBill friends userId balanceMap (bill\<lparr>pendingStatus := ps\<rparr>)
       = processBill friends userId balanceMap bill
   \<and> (useBalances bills friends uid k = Some b \<longrightarrow> netBalance b = js_sub (owes b) (owed b))"
proof (intro conjI impI)
  show "processBill friends userId balanceMap bill =
     balanceMap(paidBy bill \<mapsto>
       (let entry = (case balanceMap (paidBy bill) of
                       None \<Rightarrow> newBalance (paidBy bill)
                                 (case paidByName bill of None \<Rightarrow> ''Unknown''
                                  | Some nm \<Rightarrow> if nm = [] then ''Unknown'' else nm)
                     | Some e \<Rightarrow> e)
        in if markedPaid bill userId then entry
           else entry\<lparr>owed := js_add (owed entry) (calculateUserShare bill userId)\<rparr>))"
    using processBill_friend_paid [OF assms(1-4) assms(6), of friends balanceMap]
    by (simp only: statusOf_markedPaid [OF assms(5)])
next
  show "processBill friends userId balanceMap (bill\<lparr>pendingStatus := ps\<rparr>)
       = processBill friends userId balanceMap bill"
    by (rule processBill_ignores_pending)
next
  assume "useBalances bills friends uid k = Some b"
  then show "netBalance b = js_sub (owes b) (owed b)" by (rule useBalances_net)
qed

theorem friend_paid_bill_owed_witness:
  "useBalances [billC] [] (Some ''U'') ''F2'' =
     Some \<lparr>friendId = ''F2'', friendName = ''Finn'', owes = Fin 0, owed = Fin 25,
           netBalance = Fin (- 25)\<rparr>
   \<and> useBalances [billC\<lparr>pendingStatus := None\<rparr>] [] (Some ''U'') ''F2'' =
     Some \<lparr>friendId = ''F2'', friendName = ''Finn'', owes = Fin 0, owed = Fin 25,
           netBalance = Fin (- 25)\<rparr>
   \<and> processBill [] ''U'' Map.empty billSettled ''F'' =
     Some \<lparr>friendId = ''F'', friendName = ''Flo'', owes = Fin 0, owed = Fin 0,
           netBalance = Fin 0\<rparr>"
proof -
  have st: "\<not> markedPaid billC ''U''" "markedPaid billSettled ''U''"
    by (simp_all add: billC_def billSettled_def markedPaid_def)
  have nc: "\<not> isBillCompleted billC" "\<not> isBillCompleted billSettled"
    by (simp_all add: isBillCompleted_def billC_def billSettled_def splitList_def statusOf_def)
  have pb: "paidBy billC \<noteq> ''U''" and sa: "splitAmong billC = Some [''U'', ''F2'']"
    and nm: "paidByName billC = Some ''Finn''" and p: "paidBy billC = ''F2''"
    by (simp_all add: billC_def)
  have pbS: "paidBy billSettled \<noteq> ''U''"
    and saS: "splitAmong billSettled = Some [''U'', ''F'', ''G'']"
    and nmS: "paidByName billSettled = Some ''Flo''" and pS: "paidBy billSettled = ''F''"
    by (simp_all add: billSettled_def)
  have u: "''U'' \<in> set [''U'', ''F2'']" and uS: "''U'' \<in> set [''U'', ''F'', ''G'']" by simp_all
  have k: "\<not> inheritedKey ''U''" "\<not> inheritedKey (paidBy billC)"
    "\<not> inheritedKey (paidBy billSettled)"
    by (simp_all add: p pS)
  have sh: "calculateUserShare billC ''U'' = Fin 25"
    by (simp add: calculateUserShare_def billC_def safeNumber_def isNaN_def splitCount_def)
  note t = friend_paid_bill_owed [OF nc(1) pb sa u k(1) k(2), of "[]" Map.empty None "[]" None "''x''"
      "newBalance [] []"]
  from t have 1: "processBill [] ''U'' Map.empty billC ''F2'' =
      Some \<lparr>friendId = ''F2'', friendName = ''Finn'', owes = Fin 0, owed = Fin 25,
            netBalance = Fin 0\<rparr>"
    by (simp add: st sh nm p newBalance_def)
  from t have 2: "processBill [] ''U'' Map.empty (billC\<lparr>pendingStatus := None\<rparr>)
                    = processBill [] ''U'' Map.empty billC"
    by (simp del: Bill.simps)
  note s = friend_paid_bill_owed [OF nc(2) pbS saS uS k(1) k(3), of "[]" Map.empty None "[]" None
      "''x''" "newBalance [] []"]
  from s have 3: "processBill [] ''U'' Map.empty billSettled ''F'' =
      Some \<lparr>friendId = ''F'', friendName = ''Flo'', owes = Fin 0, owed = Fin 0,
            netBalance = Fin 0\<rparr>"
    by (simp add: st nmS pS newBalance_def)
  from 1 2 3 show ?thesis
    by (simp add: useBalances_def setNet_def js_sub_def del: Bill.simps)
qed

section \<open>Balances: which friends have an entry\<close>

lemma entry_addOwes:
  assumes "\<not> inheritedKey f"
  shows "(addOwes friends u bill bm x f \<noteq> None) =
           (bm f \<noteq> None \<or> (f = x \<and> x \<noteq> u \<and> \<not> markedPaid bill x))"
proof (cases "f = x")
  case True
  with assms have k: "\<not> inheritedKey x" by simp
  show ?thesis unfolding True
    by (simp add: addOwes_def Let_def k statusOf_markedPaid [OF k])
next
  case False
  then show ?thesis by (simp add: addOwes_other)
qed

lemma entry_fold_addOwes:
  assumes "\<not> inheritedKey f"
  shows "(foldl (addOwes friends u bill) bm xs f \<noteq> None) =
           (bm f \<noteq> None \<or> (f \<in> set xs \<and> f \<noteq> u \<and> \<not> markedPaid bill f))"
proof (induction xs arbitrary: bm)
  case Nil
  then show ?case by simp
next
  case (Cons x xs)
  show ?case
    unfolding foldl_Cons Cons.IH entry_addOwes [OF assms] by auto
qed

lemma processBill_completed:
  "isBillCompleted bill \<Longrightarrow> processBill friends u bm bill = bm"
  by (simp add: processBill_def)

lemma in_splitList:
  "(case splitAmong bill of None \<Rightarrow> False | Some xs \<Rightarrow> u \<in> set xs) = (u \<in> set (splitList bill))"
  by (simp add: splitList_def split: option.splits)

lemma processBill_outside:
  "isBillCompleted bill \<or> u \<notin> set (splitList bill) \<Longrightarrow> processBill friends u bm bill = bm"
  by (auto simp: processBill_def in_splitList)

lemma processBill_fold:
  "\<not> isBillCompleted bill \<Longrightarrow> u \<in> set (splitList bill) \<Longrightarrow> paidBy bill = u \<Longrightarrow>
   processBill friends u bm bill = foldl (addOwes friends u bill) bm (splitList bill)"
  by (simp add: processBill_def in_splitList Let_def)

lemma processBill_payer:
  assumes "\<not> isBillCompleted bill" and "u \<in> set (splitList bill)" and "paidBy bill \<noteq> u"
    and "\<not> inheritedKey (paidBy bill)"
  shows "processBill friends u bm bill (paidBy bill) =
     Some (let entry = (case bm (paidBy bill) of
                       None \<Rightarrow> newBalance (paidBy bill)
                                 (case paidByName bill of None \<Rightarrow> ''Unknown''
                                  | Some nm \<Rightarrow> if nm = [] then ''Unknown'' else nm)
                     | Some e \<Rightarrow> e)
        in if statusOf (paidStatus bill) u then entry
           else entry\<lparr>owed := js_add (owed entry) (calculateUserShare bill u)\<rparr>)"
  using assms by (simp add: processBill_def in_splitList Let_def)

lemma processBill_not_payer:
  assumes "paidBy bill \<noteq> u" and "f \<noteq> paidBy bill"
  shows "processBill friends u bm bill f = bm f"
  using assms by (simp add: processBill_def Let_def)

lemma entry_processBill:
  assumes "\<not> inheritedKey f"
  shows "(processBill friends u bm bill f \<noteq> None) = (bm f \<noteq> None \<or> touches u f bill)"
proof (cases "isBillCompleted bill \<or> u \<notin> set (splitList bill)")
  case True
  then have "processBill friends u bm bill = bm" by (rule processBill_outside)
  moreover from True have "\<not> touches u f bill" by (auto simp: touches_def)
  ultimately show ?thesis by simp
next
  case False
  then have nc: "\<not> isBillCompleted bill" and us: "u \<in> set (splitList bill)" by simp_all
  show ?thesis
  proof (cases "paidBy bill = u")
    case True
    show ?thesis
      unfolding processBill_fold [OF nc us True] entry_fold_addOwes [OF assms]
      using nc us True by (auto simp: touches_def)
  next
    case neq: False
    show ?thesis
    proof (cases "f = paidBy bill")
      case True
      with assms have k: "\<not> inheritedKey (paidBy bill)" by simp
      have "processBill friends u bm bill (paidBy bill) \<noteq> None"
        by (simp add: processBill_payer [OF nc us neq k])
      moreover have "touches u (paidBy bill) bill"
        using nc us neq by (simp add: touches_def)
      ultimately show ?thesis unfolding True by simp
    next
      case False
      with neq have "processBill friends u bm bill f = bm f"
        by (intro processBill_not_payer)
      moreover from False neq have "\<not> touches u f bill" by (simp add: touches_def)
      ultimately show ?thesis by simp
    qed
  qed
qed

lemma entry_fold_processBill:
  assumes "\<not> inheritedKey f"
  shows "(foldl (processBill friends u) bm bills f \<noteq> None) =
           (bm f \<noteq> None \<or> (\<exists>b\<in>set bills. touches u f b))"
proof (induction bills arbitrary: bm)
  case Nil
  then show ?case by simp
next
  case (Cons b bills)
  show ?case
    unfolding foldl_Cons Cons.IH entry_processBill [OF assms] by auto
qed

lemma fold_processBill_filter:
  "foldl (processBill friends u) bm (filter (\<lambda>b. \<not> isBillCompleted b) bills)
     = foldl (processBill friends u) bm bills"
  by (induction bills arbitrary: bm) (simp_all add: processBill_completed)

lemma useBalances_entry:
  "u \<noteq> [] \<Longrightarrow>
   (useBalances bills friends (Some u) f \<noteq> None) =
     (foldl (processBill friends u) Map.empty bills f \<noteq> None)"
  by (simp add: useBalances_def Let_def)

text \<open>A bill that does not touch the entry of \<open>f\<close> leaves it as it is.\<close>

lemma processBill_untouched:
  assumes "\<not> touches u f bill" and "\<not> inheritedKey f"
  shows "processBill friends u bm bill f = bm f"
proof (cases "isBillCompleted bill \<or> u \<notin> set (splitList bill)")
  case True
  then show ?thesis by (simp add: processBill_outside)
next
  case False
  then have nc: "\<not> isBillCompleted bill" and us: "u \<in> set (splitList bill)" by simp_all
  show ?thesis
  proof (cases "paidBy bill = u")
    case True
    from assms(1) nc us True
    have "f \<notin> set (splitList bill) \<or> f = u \<or> markedPaid bill f"
      by (simp add: touches_def)
    then have "foldl (addOwes friends u bill) bm (splitList bill) f = bm f"
      using fold_addOwes_absent [of f "splitList bill" friends u bill bm]
        fold_addOwes_skip [of f u bill friends bm "splitList bill"]
        markedPaid_statusOf [of bill f]
      by blast
    then show ?thesis by (simp only: processBill_fold [OF nc us True])
  next
    case neq: False
    with assms(1) nc us have "f \<noteq> paidBy bill" by (simp add: touches_def)
    with neq show ?thesis by (intro processBill_not_payer)
  qed
qed

text \<open>
  A bill paid by \<open>f\<close> in which the user is marked paid creates the entry of \<open>f\<close> if
  need be and adds nothing to it.
\<close>

lemma processBill_settled:
  assumes "touches u f bill" and "paidBy bill = f" and "markedPaid bill u"
    and "\<not> inheritedKey f"
  shows "\<exists>nm. processBill friends u bm bill f =
           Some (case bm f of None \<Rightarrow> newBalance f nm | Some e \<Rightarrow> e)"
proof -
  from assms(1) have nc: "\<not> isBillCompleted bill" and us: "u \<in> set (splitList bill)"
    by (simp_all add: touches_def)
  have neq: "paidBy bill \<noteq> u"
  proof
    assume "paidBy bill = u"
    with assms(1) have "f \<noteq> u" by (simp add: touches_def)
    with assms(2) \<open>paidBy bill = u\<close> show False by simp
  qed
  from assms(4) assms(2) have k: "\<not> inheritedKey (paidBy bill)" by simp
  from assms(3) have st: "statusOf (paidStatus bill) u" by (rule markedPaid_statusOf)
  have "processBill friends u bm bill (paidBy bill) =
          Some (case bm (paidBy bill) of
                  None \<Rightarrow> newBalance (paidBy bill)
                            (case paidByName bill of None \<Rightarrow> ''Unknown''
                             | Some nm \<Rightarrow> if nm = [] then ''Unknown'' else nm)
                | Some e \<Rightarrow> e)"
    by (simp add: processBill_payer [OF nc us neq k] st)
  then show ?thesis unfolding assms(2) by blast
qed

lemma fold_processBill_settled:
  assumes "\<not> inheritedKey f"
    and "\<forall>b\<in>set bills. touches u f b \<longrightarrow> paidBy b = f \<and> markedPaid b u"
    and "\<forall>e. bm f = Some e \<longrightarrow> owes e = Fin 0 \<and> owed e = Fin 0"
  shows "\<forall>e. foldl (processBill friends u) bm bills f = Some e \<longrightarrow> owes e = Fin 0 \<and> owed e = Fin 0"
  using assms(2,3)
proof (induction bills arbitrary: bm)
  case Nil
  then show ?case by simp
next
  case (Cons b bills)
  have step: "\<forall>e. processBill friends u bm b f = Some e \<longrightarrow> owes e = Fin 0 \<and> owed e = Fin 0"
  proof (cases "touches u f b")
    case True
    with Cons.prems(1) have "paidBy b = f" "markedPaid b u" by simp_all
    from processBill_settled [OF True this assms(1), of friends bm]
    obtain nm where "processBill friends u bm b f =
           Some (case bm f of None \<Rightarrow> newBalance f nm | Some e \<Rightarrow> e)" by blast
    with Cons.prems(2) show ?thesis
      by (cases "bm f") (simp_all add: newBalance_def)
  next
    case False
    then have "processBill friends u bm b f = bm f"
      using assms(1) by (rule processBill_untouched)
    with Cons.prems(2) show ?thesis by simp
  qed
  from Cons.prems(1) have "\<forall>b\<in>set bills. touches u f b \<longrightarrow> paidBy b = f \<and> markedPaid b u"
    by simp
  from Cons.IH [of "processBill friends u bm b", OF this step] show ?case by simp
qed

lemma js_sub_zero: "js_sub (Fin 0) (Fin 0) = Fin 0"
  by (simp add: js_sub_def fl_def)

text \<open>
  C6, as amended: a completed bill leaves the balances as they were, so the result is
  that of the bills that are not completed; a friend (whose id is not a name every
  object inherits) has an entry exactly when some bill that is not completed and has
  the user in \<open>splitAmong\<close> either was paid by the user and lists the friend as another
  participant not marked paid, or was paid by the friend; a friend in no such bill is
  absent. When every such bill was paid by the friend and has the user marked paid, the
  friend's entry, if there is one, has \<open>owes\<close>, \<open>owed\<close> and \<open>netBalance\<close> zero.
\<close>

theorem balance_entries:
  assumes "userId \<noteq> []" and "\<not> inheritedKey f"
  shows "(useBalances bills friends (Some userId) f \<noteq> None
            \<longleftrightarrow> (\<exists>b\<in>set bills. touches userId f b))
       \<and> useBalances (filter (\<lambda>b. \<not> isBillCompleted b) bills) friends (Some userId)
           = useBalances bills friends (Some userId)
       \<and> (isBillCompleted bill \<longrightarrow> processBill friends userId balanceMap bill = balanceMap)
       \<and> ((\<forall>b\<in>set bills. touches userId f b \<longrightarrow> paidBy b = f \<and> markedPaid b userId) \<longrightarrow>
            (\<forall>e. useBalances bills friends (Some userId) f = Some e \<longrightarrow>
                 owes e = Fin 0 \<and> owed e = Fin 0 \<and> netBalance e = Fin 0))"
proof (intro conjI impI allI)
  show "useBalances bills friends (Some userId) f \<noteq> None
            \<longleftrightarrow> (\<exists>b\<in>set bills. touches userId f b)"
    by (simp only: useBalances_entry [OF assms(1)] entry_fold_processBill [OF assms(2)]) simp
next
  show "useBalances (filter (\<lambda>b. \<not> isBillCompleted b) bills) friends (Some userId)
           = useBalances bills friends (Some userId)"
    by (simp add: useBalances_def fold_processBill_filter)
next
  assume "isBillCompleted bill"
  then show "processBill friends userId balanceMap bill = balanceMap"
    by (rule processBill_completed)
next
  fix e
  assume h: "\<forall>b\<in>set bills. touches userId f b \<longrightarrow> paidBy b = f \<and> markedPaid b userId"
    and e: "useBalances bills friends (Some userId) f = Some e"
  from e assms(1) obtain e0 where e0: "foldl (processBill friends userId) Map.empty bills f = Some e0"
    and ee: "e = setNet e0"
    by (auto simp: useBalances_def Let_def)
  have "\<forall>e. foldl (processBill friends userId) Map.empty bills f = Some e
            \<longrightarrow> owes e = Fin 0 \<and> owed e = Fin 0"
    using assms(2) h by (rule fold_processBill_settled) simp
  with e0 have z: "owes e0 = Fin 0" "owed e0 = Fin 0" by simp_all
  show "owes e = Fin 0" "owed e = Fin 0" "netBalance e = Fin 0"
    by (simp_all add: ee setNet_def z js_sub_zero)
qed

theorem balance_entries_witness:
  "useBalances [billDone, billSettled] [] (Some ''U'') ''F'' \<noteq> None
   \<and> useBalances [billDone, billSettled] [] (Some ''U'') ''G'' = None
   \<and> useBalances [billDone, billSettled] [] (Some ''U'') ''F1'' = None
   \<and> map_option owes (useBalances [billDone, billSettled] [] (Some ''U'') ''F'') = Some (Fin 0)
   \<and> map_option owed (useBalances [billDone, billSettled] [] (Some ''U'') ''F'') = Some (Fin 0)"
proof -
  have u: "''U'' \<noteq> []" by simp
  have k: "\<not> inheritedKey ''F''" "\<not> inheritedKey ''G''" "\<not> inheritedKey ''F1''" by simp_all
  have d: "isBillCompleted billDone"
    by (simp add: isBillCompleted_def billDone_def billA_def splitList_def statusOf_def)
  have s: "\<not> isBillCompleted billSettled" "paidBy billSettled = ''F''"
    "splitList billSettled = [''U'', ''F'', ''G'']"
    by (simp_all add: isBillCompleted_def billSettled_def splitList_def statusOf_def)
  have paid: "markedPaid billSettled ''U''" by (simp add: billSettled_def markedPaid_def)
  have tF: "\<exists>b\<in>set [billDone, billSettled]. touches ''U'' ''F'' b"
    by (simp add: touches_def d s)
  have tG: "\<not> (\<exists>b\<in>set [billDone, billSettled]. touches ''U'' ''G'' b)"
    by (simp add: touches_def d s)
  have tF1: "\<not> (\<exists>b\<in>set [billDone, billSettled]. touches ''U'' ''F1'' b)"
    by (simp add: touches_def d s)
  have all: "\<forall>b\<in>set [billDone, billSettled].
               touches ''U'' ''F'' b \<longrightarrow> paidBy b = ''F'' \<and> markedPaid b ''U''"
    by (simp add: touches_def d s paid)
  note t = balance_entries [OF u k(1), of "[billDone, billSettled]" "[]" billDone Map.empty]
  from t tF
  have 1: "useBalances [billDone, billSettled] [] (Some ''U'') ''F'' \<noteq> None"
    by (simp only: simp_thms)
  from balance_entries [OF u k(2), of "[billDone, billSettled]" "[]" billDone Map.empty] tG
  have 2: "useBalances [billDone, billSettled] [] (Some ''U'') ''G'' = None"
    by (simp only: simp_thms)
  from balance_entries [OF u k(3), of "[billDone, billSettled]" "[]" billDone Map.empty] tF1
  have 3: "useBalances [billDone, billSettled] [] (Some ''U'') ''F1'' = None"
    by (simp only: simp_thms)
  from t [THEN conjunct2, THEN conjunct2, THEN conjunct2, THEN mp, OF all]
  have z: "\<forall>e. useBalances [billDone, billSettled] [] (Some ''U'') ''F'' = Some e \<longrightarrow>
                 owes e = Fin 0 \<and> owed e = Fin 0 \<and> netBalance e = Fin 0" .
  from 1 obtain e where e: "useBalances [billDone, billSettled] [] (Some ''U'') ''F'' = Some e"
    by blast
  with z have "owes e = Fin 0" "owed e = Fin 0" by simp_all
  with e have 4: "map_option owes (useBalances [billDone, billSettled] [] (Some ''U'') ''F'')
                    = Some (Fin 0)"
    and 5: "map_option owed (useBalances [billDone, billSettled] [] (Some ''U'') ''F'')
                    = Some (Fin 0)"
    by simp_all
  from 1 2 3 4 5 show ?thesis by (intro conjI)
qed

text \<open>
  C6 as the specification states it fails: \<open>F\<close> paid a bill in which the user's share
  is already confirmed as paid while another participant's is not. The user owes \<open>F\<close>
  nothing and \<open>F\<close> owes the user nothing, yet \<open>F\<close> has an entry, with \<open>owes\<close> and
  \<open>owed\<close> zero.
\<close>

theorem settled_friend_has_entry:
  "paidBy billSettled = ''F''
   \<and> markedPaid billSettled ''U''
   \<and> useBalances [billSettled] [] (Some ''U'') ''F'' =
       Some \<lparr>friendId = ''F'', friendName = ''Flo'', owes = Fin 0, owed = Fin 0,
             netBalance = Fin 0\<rparr>"
  by (simp add: billSettled_def statusOf_def markedPaid_def useBalances_def processBill_def
      isBillCompleted_def splitList_def newBalance_def setNet_def js_sub_def Let_def
      inheritedKey_def objectPrototypeKeys_def fl_def)

section \<open>Creating a bill\<close>

lemma parseFloatString_90: "parseFloatString ''90'' = Fin 90"
  by (simp add: parseFloatString_def wsBytes_def scanNumber_def scanDecimal_def isDigit_def
      digitsValue_def digitValue_def Let_def)

lemma initStatus_fold:
  "foldl (\<lambda>(paid, pending) uid. (paid(uid \<mapsto> (uid = payer)), pending(uid \<mapsto> False)))
     (paid0, pending0) people
   = ((\<lambda>p. if p \<in> set people then Some (p = payer) else paid0 p),
      (\<lambda>p. if p \<in> set people then Some False else pending0 p))"
proof (induction people arbitrary: paid0 pending0)
  case Nil
  then show ?case by simp
next
  case (Cons x xs)
  let ?step = "\<lambda>(paid, pending) uid.
                 (paid(uid \<mapsto> (uid = payer)), pending(uid \<mapsto> False))"
  have "foldl ?step (paid0, pending0) (x # xs)
          = foldl ?step (paid0(x \<mapsto> (x = payer)), pending0(x \<mapsto> False)) xs"
    by simp
  also have "\<dots> = ((\<lambda>p. if p \<in> set xs then Some (p = payer)
                        else (paid0(x \<mapsto> (x = payer))) p),
                   (\<lambda>p. if p \<in> set xs then Some False else (pending0(x \<mapsto> False)) p))"
    by (rule Cons.IH)
  also have "\<dots> = ((\<lambda>p. if p \<in> set (x # xs) then Some (p = payer) else paid0 p),
                   (\<lambda>p. if p \<in> set (x # xs) then Some False else pending0 p))"
    by (auto simp: fun_eq_iff)
  finally show ?case .
qed

lemma initStatus_eq:
  "initStatus payer people =
     ((\<lambda>p. if p \<in> set people then Some (p = payer) else None),
      (\<lambda>p. if p \<in> set people then Some False else None))"
  by (simp add: initStatus_def initStatus_fold)

text \<open>
  C8: without a signed-in user \<open>createBill\<close> fails with the unauthenticated error; with
  one it writes a bill of the given payer and participants in which every participant
  \<open>p\<close> has \<open>paidStatus[p] = (p == paidBy)\<close> and \<open>pendingStatus[p] = false\<close>, so that a
  payer who is a participant is marked paid.
\<close>

theorem createBill_status:
  "createBill None payer newId billData = Inl Unauthenticated
   \<and> (\<exists>bill paid pending.
         createBill (Some uid) payer newId billData = Inr bill
         \<and> paidBy bill = new_paidBy billData
         \<and> splitAmong bill = Some (new_splitAmong billData)
         \<and> paidStatus bill = Some paid \<and> pendingStatus bill = Some pending
         \<and> (\<forall>p\<in>set (new_splitAmong billData).
               paid p = Some (p = new_paidBy billData) \<and> pending p = Some False)
         \<and> (new_paidBy billData \<in> set (new_splitAmong billData) \<longrightarrow>
               paid (paidBy bill) = Some True))"
  by (simp add: createBill_def initStatus_eq)

theorem createBill_status_witness:
  "createBill None (Document (Some ''Uma'')) ''A'' dataA = Inl Unauthenticated
   \<and> createBill (Some ''U'') (Document (Some ''Uma'')) ''A'' dataA = Inr billA"
proof -
  from createBill_status [of "Document (Some ''Uma'')" "''A''" dataA "''U''"]
  have n: "createBill None (Document (Some ''Uma'')) ''A'' dataA = Inl Unauthenticated"
    by (rule conjunct1)
  have "createBill (Some ''U'') (Document (Some ''Uma'')) ''A'' dataA = Inr billA"
    by (simp add: createBill_def initStatus_eq dataA_def billA_def payerName_def finalAmount_def
        parseFloatString_90 fun_eq_iff)
  with n show ?thesis by simp
qed

section \<open>Confirming a payment\<close>

text \<open>
  C9: confirming the payment of \<open>p\<close> makes one update of the bill, which replaces both
  status dictionaries together: in the new ones \<open>paidStatus[p]\<close> is true and
  \<open>pendingStatus[p]\<close> is false, and the entries of every other id are those of the bill
  as read (a missing entry stays missing).
\<close>

theorem confirmPaid_update:
  "\<exists>newPaid newPending.
     handleConfirmPaid bill p =
       [(bill_id bill, \<lparr>set_paidStatus = Some newPaid, set_pendingStatus = Some newPending\<rparr>)]
     \<and> newPaid p = Some True \<and> newPending p = Some False
     \<and> (\<forall>q. q \<noteq> p \<longrightarrow>
           newPaid q = statusMap (paidStatus bill) q
           \<and> newPending q = statusMap (pendingStatus bill) q)"
  by (simp add: handleConfirmPaid_def Let_def)

theorem confirmPaid_update_witness:
  "\<exists>newPaid newPending.
     handleConfirmPaid billC ''U'' =
       [(''C'', \<lparr>set_paidStatus = Some newPaid, set_pendingStatus = Some newPending\<rparr>)]
     \<and> newPaid ''U'' = Some True \<and> newPending ''U'' = Some False
     \<and> newPaid ''F2'' = Some True \<and> newPending ''F2'' = Some False
     \<and> newPaid ''G'' = None \<and> newPending ''G'' = None"
proof -
  from confirmPaid_update [of billC "''U''"]
  obtain newPaid newPending where
    h: "handleConfirmPaid billC ''U'' =
       [(bill_id billC, \<lparr>set_paidStatus = Some newPaid, set_pendingStatus = Some newPending\<rparr>)]"
    and p: "newPaid ''U'' = Some True" "newPending ''U'' = Some False"
    and q: "\<forall>q. q \<noteq> ''U'' \<longrightarrow>
           newPaid q = statusMap (paidStatus billC) q
           \<and> newPending q = statusMap (pendingStatus billC) q"
    by blast
  have i: "bill_id billC = ''C''" by (simp add: billC_def)
  from q have "newPaid ''F2'' = Some True" "newPending ''F2'' = Some False"
    "newPaid ''G'' = None" "newPending ''G'' = None"
    by (simp_all add: billC_def statusMap_def)
  with h p i show ?thesis by simp
qed

section \<open>Coercion and the sign of a share\<close>











lemma ge0_cases:
  assumes "js_ge x (Fin 0)"
  obtains (fin) a where "x = Fin a" "0 \<le> a" | (inf) "x = PInf"
  using assms by (cases x) simp_all


lemma ge0_fl: "0 \<le> x \<Longrightarrow> js_ge (fl x) (Fin 0)"
  using fl_nonneg [of x] by (cases "fl x") simp_all


lemma ge0_add:
  assumes "js_ge x (Fin 0)" and "js_ge y (Fin 0)"
  shows "js_ge (js_add x y) (Fin 0)"
  using assms(1)
proof (cases rule: ge0_cases)
  case (fin a)
  from assms(2) show ?thesis
    by (cases rule: ge0_cases) (simp_all add: fin ge0_fl)
next
  case inf
  from assms(2) show ?thesis
    by (cases rule: ge0_cases) (simp_all add: inf)
qed




lemma notNegative_consts [simp]: "notNegative (Fin 100)" "notNegative (Fin 0)"
  by (simp_all add: notNegative_def)

lemma ge0_foldl:
  assumes "\<forall>v\<in>set vs. nonNegative v" and "js_ge acc (Fin 0)"
  shows "js_ge (foldl (\<lambda>a b. js_add a (safeNumber b)) acc vs) (Fin 0)"
  using assms
proof (induction vs arbitrary: acc)
  case Nil
  then show ?case by simp
next
  case (Cons v vs)
  from Cons.prems have "js_ge (js_add acc (safeNumber v)) (Fin 0)"
    by (intro ge0_add) (simp_all add: nonNegative_def)
  with Cons show ?case by simp
qed

lemma ge0_itemizedSum:
  "\<forall>v\<in>set (map snd m). nonNegative v \<Longrightarrow> js_ge (itemizedSum m) (Fin 0)"
  unfolding itemizedSum_def by (rule ge0_foldl) simp_all















section \<open>The copies of the share calculation\<close>

lemma dashboard_copy_same: "calculateAmounts_Dashboard bill p = calculateUserShare bill p"
  by (simp add: calculateAmounts_Dashboard_def calculateUserShare_def)

lemma fl_2_5_times_18:
  "fl (3602879701896397 / 9007199254740992 * 18) = Fin (8106479329266893 / 1125899906842624)"
  using fl_eval [of "3602879701896397 / 9007199254740992 * 18" 2 8106479329266893] by simp

lemma fl_3_5_times_18:
  "fl (5404319552844595 / 9007199254740992 * 18) = Fin (6079859496950169 / 562949953421312)"
  using fl_eval [of "5404319552844595 / 9007199254740992 * 18" 3 6079859496950169] by simp

lemma fl_236_5: "fl (236 / 5) = Fin (3321404725185741 / 70368744177664)"
  using fl_eval [of "236 / 5" 5 6642809450371482] by simp

lemma fl_354_5: "fl (354 / 5) = Fin (4982107087778611 / 70368744177664)"
  using fl_eval [of "354 / 5" 6 4982107087778611] by simp

lemma fl_40_plus:
  "fl (40 + 8106479329266893 / 1125899906842624) = Fin (3321404725185741 / 70368744177664)"
  using fl_eval [of "40 + 8106479329266893 / 1125899906842624" 5 6642809450371482] by simp

lemma fl_60_plus:
  "fl (60 + 6079859496950169 / 562949953421312) = Fin (4982107087778611 / 70368744177664)"
  using fl_eval [of "60 + 6079859496950169 / 562949953421312" 6 4982107087778611] by simp

lemma detail_billB:
  "calculateAmounts_BillDetail billB = Inr [(''P'', Fin 46), (''Q'', Fin 69)]"
  by (simp add: calculateAmounts_BillDetail_def billB_def itemizedOf_def plainTotal_def
        lookupVal_def personAmount_def js_gt_def orZero_def Let_def fl_2_5 fl_3_5
        fl_2_5_times_15 [simplified] fl_3_5_times_15 [simplified])

lemma detail_old_billB:
  "calculateAmounts_BillDetailOld billB = Inr [(''P'', fl (236 / 5)), (''Q'', fl (354 / 5))]"
  by (simp add: calculateAmounts_BillDetailOld_def billB_def itemizedOf_def plainTotal_def
        lookupVal_def personAmount_def js_gt_def orZero_def Let_def fl_2_5 fl_3_5
        fl_2_5_times_18 [simplified] fl_3_5_times_18 [simplified] fl_236_5 fl_354_5
        fl_40_plus [simplified] fl_60_plus [simplified])

lemma plainField_coerced:
  "plainField v \<Longrightarrow> toNumber (orZero v) = safeNumber v"
  by (induction v rule: plainField.induct)
    (simp_all add: orZero_def safeNumber_def isNaN_def)

lemma plainAmount_coerced:
  "plainAmount v \<Longrightarrow>
     toNumber (orZero v) = safeNumber v \<and> plusOperand (orZero v) = Some (safeNumber v)
     \<and> plusOperand v = Some (safeNumber v)"
  by (induction v rule: plainAmount.induct)
    (simp_all add: orZero_def safeNumber_def isNaN_def)

lemma plainAmount_nonNegative: "plainAmount v \<Longrightarrow> nonNegative v"
  by (induction v rule: plainAmount.induct)
    (simp_all add: nonNegative_def safeNumber_def isNaN_def ge0_fl)

lemma those_map_Some: "those (map (\<lambda>x. Some (g x)) xs) = Some (map g xs)"
  by (induction xs) simp_all

lemma plainTotal_plain:
  assumes "list_all (\<lambda>(k, v). plainAmount v) m"
  shows "plainTotal m = Some (itemizedSum m)"
proof -
  from assms have "map (plusOperand \<circ> snd) m = map (\<lambda>e. Some (safeNumber (snd e))) m"
    by (auto simp: list_all_iff plainAmount_coerced)
  then have "those (map (plusOperand \<circ> snd) m) = Some (map (\<lambda>e. safeNumber (snd e)) m)"
    by (simp only: those_map_Some)
  moreover have "foldl js_add a (map (\<lambda>e. safeNumber (snd e)) m)
                   = foldl (\<lambda>a b. js_add a (safeNumber b)) a (map snd m)" for a
    by (induction m arbitrary: a) simp_all
  ultimately show ?thesis by (simp add: plainTotal_def itemizedSum_def)
qed

lemma lookup_plain:
  assumes "list_all (\<lambda>(k, v). plainAmount v) m" and "\<not> inheritedKey p"
  shows "toNumber (orZero (lookupVal m p)) = safeNumber (lookupVal m p)
         \<and> plusOperand (orZero (lookupVal m p)) = Some (safeNumber (lookupVal m p))"
proof (cases "map_of m p")
  case None
  with assms(2) show ?thesis by (simp add: lookupVal_def orZero_def safeNumber_def isNaN_def)
next
  case (Some v)
  then have "(p, v) \<in> set m" by (rule map_of_SomeD)
  with assms have "plainAmount v" by (auto simp: list_all_iff)
  with Some show ?thesis by (simp add: lookupVal_def plainAmount_coerced)
qed

lemma personAmount_plain:
  assumes "js_ge T (Fin 0)" and "representable u"
    and "toNumber w = u" and "plusOperand w = Some u"
  shows "personAmount T tt w =
           Some (if T = Fin 0 then u else js_add u (js_mul (js_div u T) tt))"
  using assms by (auto simp: personAmount_def js_gt_def js_add_zero_right)

text \<open>
  On a bill that holds what its interface declares, and whose participant ids are not
  names every object inherits, the current detail page lists, for every participant, the
  share the balance hook computes.
\<close>

lemma detail_copy_same:
  assumes "plainBill bill" and "splitAmong bill = Some people"
    and "\<forall>p\<in>set people. \<not> inheritedKey p"
  shows "calculateAmounts_BillDetail bill
           = Inr (map (\<lambda>p. (p, calculateUserShare bill p)) people)"
proof (cases "splitType bill")
  case Equal
  from assms(1) obtain a where a: "amount bill = JNumber (Fin a)"
    by (auto simp: plainBill_def split: jsval.splits jsnum.splits)
  have cnt: "people \<noteq> [] \<Longrightarrow> splitCount bill = length people"
    using assms(2) by (simp add: splitCount_def)
  have "map (\<lambda>personId. (personId, js_div (fl a) (Fin (of_nat (length people))))) people
          = map (\<lambda>p. (p, calculateUserShare bill p)) people"
  proof (cases "people = []")
    case True
    then show ?thesis by simp
  next
    case False
    then show ?thesis
      by (simp add: equal_share_value [OF Equal] cnt a safeNumber_def isNaN_def)
  qed
  then show ?thesis
    using Equal assms(2) a by (simp add: calculateAmounts_BillDetail_def Let_def)
next
  case Custom
  let ?m = "itemizedOf bill"
  from assms(1) have pl: "list_all (\<lambda>(k, v). plainAmount v) ?m"
    and tx: "toNumber (orZero (taxPercentage bill)) = safeNumber (taxPercentage bill)"
    and tp: "toNumber (orZero (tipsPercentage bill)) = safeNumber (tipsPercentage bill)"
    by (simp_all add: plainBill_def plainField_coerced)
  from pl have "\<forall>v\<in>set (map snd ?m). nonNegative v"
    by (auto simp: list_all_iff plainAmount_nonNegative)
  then have T: "js_ge (itemizedSum ?m) (Fin 0)" by (rule ge0_itemizedSum)
  have pa: "personAmount (itemizedSum ?m) tt (orZero (lookupVal ?m p)) =
           Some (if itemizedSum ?m = Fin 0 then safeNumber (lookupVal ?m p)
                 else js_add (safeNumber (lookupVal ?m p))
                        (js_mul (js_div (safeNumber (lookupVal ?m p)) (itemizedSum ?m)) tt))"
    if "p \<in> set people" for p tt
    using T representable_safeNumber
  proof (rule personAmount_plain)
    from that assms(3) have k: "\<not> inheritedKey p" by simp
    from lookup_plain [OF pl k]
    show "toNumber (orZero (lookupVal ?m p)) = safeNumber (lookupVal ?m p)"
      and "plusOperand (orZero (lookupVal ?m p)) = Some (safeNumber (lookupVal ?m p))"
      by simp_all
  qed
  have ne: "splitType bill \<noteq> Equal" using Custom by simp
  have "those (map (\<lambda>personId. map_option (Pair personId)
            (personAmount (itemizedSum ?m) tt (orZero (lookupVal ?m personId)))) people)
       = Some (map (\<lambda>p. (p, if itemizedSum ?m = Fin 0 then safeNumber (lookupVal ?m p)
                 else js_add (safeNumber (lookupVal ?m p))
                        (js_mul (js_div (safeNumber (lookupVal ?m p)) (itemizedSum ?m)) tt)))
                 people)" for tt
  proof -
    have "map (\<lambda>personId. map_option (Pair personId)
            (personAmount (itemizedSum ?m) tt (orZero (lookupVal ?m personId)))) people
        = map (\<lambda>p. Some (p, if itemizedSum ?m = Fin 0 then safeNumber (lookupVal ?m p)
                 else js_add (safeNumber (lookupVal ?m p))
                        (js_mul (js_div (safeNumber (lookupVal ?m p)) (itemizedSum ?m)) tt)))
                 people"
      by (rule map_cong [OF refl]) (simp add: pa)
    then show ?thesis by (simp only: those_map_Some)
  qed
  then show ?thesis
    using assms(2) ne
    by (simp add: calculateAmounts_BillDetail_def custom_share_value [OF Custom] tx tp
        plainTotal_plain [OF pl] Let_def)
qed

lemma detail_old_same_equal:
  "splitType bill = Equal \<Longrightarrow>
   calculateAmounts_BillDetailOld bill = calculateAmounts_BillDetail bill"
  by (simp add: calculateAmounts_BillDetailOld_def calculateAmounts_BillDetail_def
      split: option.splits)

text \<open>
  C7: the dashboard's copy computes the share of the balance hook for every bill and
  participant. The two detail pages do not both: on the custom split \<open>B\<close> (items 40 and
  60, tax 10 percent, tips 5 percent, stored amount 120) the hook and the current
  detail page give \<open>P\<close> a share of 46, the earlier detail page, which takes the
  percentages of the stored amount, gives 47.2 (the binary64 number nearest to it).
\<close>

theorem share_copies_on_billB:
  "calculateAmounts_Dashboard bill p = calculateUserShare bill p
   \<and> calculateUserShare billB ''P'' = Fin 46
   \<and> calculateAmounts_BillDetail billB = Inr [(''P'', Fin 46), (''Q'', Fin 69)]
   \<and> calculateAmounts_BillDetailOld billB = Inr [(''P'', fl (236 / 5)), (''Q'', fl (354 / 5))]
   \<and> fl (236 / 5) \<noteq> Fin 46"
  by (simp add: dashboard_copy_same share_billB_P detail_billB detail_old_billB)
    (simp add: fl_236_5)


end
